theory Spec2Isabelle
  imports Complex_Main "HOL-Library.Multiset"
begin

section \<open>JavaScript numbers\<close>

text \<open>
  The metrics code computes with JavaScript numbers, and several claims turn on the
  special values: \<open>undefined\<close> converts to \<open>NaN\<close>, a division by zero gives an
  infinity or \<open>NaN\<close>, and \<open>NaN\<close> fails every comparison. A number is therefore a finite
  value or one of the three special values. Finite values are exact reals: rounding of
  IEEE doubles and the sign of zero are not modelled. An optional field of a JSON object
  is a \<open>jsnum option\<close>, with \<open>None\<close> for an absent field (\<open>undefined\<close>).
\<close>

datatype jsnum = Fin real | PInf | NInf | NaN

text \<open>\<open>ToNumber\<close> on an optional numeric field: \<open>undefined\<close> becomes \<open>NaN\<close>.\<close>

definition toNumber :: "jsnum option \<Rightarrow> jsnum" where
  "toNumber v = (case v of None \<Rightarrow> NaN | Some n \<Rightarrow> n)"

fun jsneg :: "jsnum \<Rightarrow> jsnum" where
  "jsneg (Fin a) = Fin (- a)"
| "jsneg PInf = NInf"
| "jsneg NInf = PInf"
| "jsneg NaN = NaN"

fun jsadd :: "jsnum \<Rightarrow> jsnum \<Rightarrow> jsnum" where
  "jsadd NaN b = NaN"
| "jsadd a NaN = NaN"
| "jsadd (Fin a) (Fin b) = Fin (a + b)"
| "jsadd PInf NInf = NaN"
| "jsadd NInf PInf = NaN"
| "jsadd PInf b = PInf"
| "jsadd a PInf = PInf"
| "jsadd NInf b = NInf"
| "jsadd a NInf = NInf"

definition jssub :: "jsnum \<Rightarrow> jsnum \<Rightarrow> jsnum" where
  "jssub a b = jsadd a (jsneg b)"

fun jsdiv :: "jsnum \<Rightarrow> jsnum \<Rightarrow> jsnum" where
  "jsdiv NaN b = NaN"
| "jsdiv a NaN = NaN"
| "jsdiv (Fin a) (Fin b) =
     (if b \<noteq> 0 then Fin (a / b)
      else if 0 < a then PInf else if a < 0 then NInf else NaN)"
| "jsdiv (Fin a) b = Fin 0"
| "jsdiv PInf (Fin b) = (if 0 \<le> b then PInf else NInf)"
| "jsdiv NInf (Fin b) = (if 0 \<le> b then NInf else PInf)"
| "jsdiv a b = NaN"

fun jsmul :: "jsnum \<Rightarrow> jsnum \<Rightarrow> jsnum" where
  "jsmul NaN b = NaN"
| "jsmul a NaN = NaN"
| "jsmul (Fin a) (Fin b) = Fin (a * b)"
| "jsmul (Fin a) PInf = (if 0 < a then PInf else if a < 0 then NInf else NaN)"
| "jsmul (Fin a) NInf = (if 0 < a then NInf else if a < 0 then PInf else NaN)"
| "jsmul PInf (Fin b) = (if 0 < b then PInf else if b < 0 then NInf else NaN)"
| "jsmul NInf (Fin b) = (if 0 < b then NInf else if b < 0 then PInf else NaN)"
| "jsmul PInf PInf = PInf"
| "jsmul NInf NInf = PInf"
| "jsmul a b = NInf"

text \<open>\<open>a >= b\<close> and \<open>a < b\<close>: false as soon as one side is \<open>NaN\<close>.\<close>

fun jsge :: "jsnum \<Rightarrow> jsnum \<Rightarrow> bool" where
  "jsge NaN b = False"
| "jsge a NaN = False"
| "jsge (Fin a) (Fin b) = (b \<le> a)"
| "jsge PInf b = True"
| "jsge a NInf = True"
| "jsge a b = False"

fun jslt :: "jsnum \<Rightarrow> jsnum \<Rightarrow> bool" where
  "jslt NaN b = False"
| "jslt a NaN = False"
| "jslt a b = (\<not> jsge a b)"

text \<open>\<open>Math.max\<close> and \<open>Math.min\<close> of two numbers: \<open>NaN\<close> if either is.\<close>

definition mathMax :: "jsnum \<Rightarrow> jsnum \<Rightarrow> jsnum" where
  "mathMax a b = (if a = NaN \<or> b = NaN then NaN else if jsge a b then a else b)"

definition mathMin :: "jsnum \<Rightarrow> jsnum \<Rightarrow> jsnum" where
  "mathMin a b = (if a = NaN \<or> b = NaN then NaN else if jsge a b then b else a)"

text \<open>Truthiness of a number: \<open>0\<close> and \<open>NaN\<close> are falsy; \<open>undefined\<close> is falsy.\<close>

fun truthy :: "jsnum \<Rightarrow> bool" where
  "truthy (Fin a) = (a \<noteq> 0)"
| "truthy NaN = False"
| "truthy a = True"

definition truthyOpt :: "jsnum option \<Rightarrow> bool" where
  "truthyOpt v = (case v of None \<Rightarrow> False | Some n \<Rightarrow> truthy n)"

text \<open>\<open>a || b\<close> on numbers, and on an optional field with a default.\<close>

definition jsor :: "jsnum \<Rightarrow> jsnum \<Rightarrow> jsnum" where
  "jsor a b = (if truthy a then a else b)"

definition orDefault :: "jsnum option \<Rightarrow> jsnum \<Rightarrow> jsnum" where
  "orDefault v d = (case v of None \<Rightarrow> d | Some n \<Rightarrow> jsor n d)"

fun isFinite :: "jsnum \<Rightarrow> bool" where
  "isFinite (Fin a) = True"
| "isFinite a = False"

section \<open>The Ollama stream consumer\<close>

subsection \<open>Data\<close>

text \<open>\<open>ModelMetrics\<close> of \<open>types/model-config\<close>. The two fields that some producers leave
  out are optional.\<close>

record ModelMetrics =
  responseTime :: jsnum
  tokensPerSecond :: jsnum
  totalTokens :: jsnum
  promptTokens :: jsnum
  completionTokens :: jsnum
  processingTime :: "jsnum option"
  contextSize :: "jsnum option"

text \<open>The statistics of one streamed record, each of them optional, and the record itself
  (\<open>done\<close> is a keyword here, so the flag is \<open>done_flag\<close>).\<close>

record OllamaStats =
  total_duration :: "jsnum option"
  eval_count :: "jsnum option"
  eval_duration :: "jsnum option"
  prompt_eval_count :: "jsnum option"
  prompt_eval_duration :: "jsnum option"

record OllamaResponse = OllamaStats +
  response :: string
  done_flag :: bool

record OllamaEndpointConfig =
  id_cfg :: string
  name_cfg :: string
  enabled :: bool
  provider :: string
  baseUrl :: string
  modelName :: string
  maxTokens :: "jsnum option"
  context_size :: "jsnum option"

text \<open>
  What the network delivers. A line of the body either fails \<open>JSON.parse\<close> (the inner
  \<open>catch\<close> skips it) or is a record; it comes with the reading of \<open>performance.now()\<close>
  taken while it is processed. A read of the body may fail instead. The chunk boundaries
  of the body play no role, the lines are processed in order.
\<close>

datatype line = Malformed | Parsed "unit OllamaResponse_scheme"

datatype read_event = Line real line | ReadFailure string

datatype fetch_result =
    NetworkFailure string
  | HttpResponse bool nat string "read_event list"

datatype jserror =
    ApiError nat string
  | NetworkError string
  | StreamReadError string

text \<open>One invocation of \<open>onProgress\<close>: the instant of the call, the fraction and the
  metrics passed.\<close>

record progress_call =
  instant :: real
  fraction :: jsnum
  reported :: ModelMetrics

text \<open>The local variables of \<open>generateCompletion\<close>, and the calls of \<open>onProgress\<close>
  made so far.\<close>

record gen_vars =
  v_totalTokens :: jsnum
  v_completionTokens :: jsnum
  v_promptTokens :: jsnum
  lastStats :: OllamaStats
  fullText :: string
  calls :: "progress_call list"

subsection \<open>\<open>OllamaService.generateCompletion\<close>\<close>

definition no_stats :: OllamaStats where
  "no_stats = \<lparr>total_duration = None, eval_count = None, eval_duration = None,
     prompt_eval_count = None, prompt_eval_duration = None\<rparr>"

definition zero_metrics :: ModelMetrics where
  "zero_metrics = \<lparr>responseTime = Fin 0, tokensPerSecond = Fin 0, totalTokens = Fin 0,
     promptTokens = Fin 0, completionTokens = Fin 0, processingTime = Some (Fin 0),
     contextSize = None\<rparr>"

definition init_vars :: "real \<Rightarrow> gen_vars" where
  "init_vars startTime = \<lparr>v_totalTokens = Fin 0, v_completionTokens = Fin 0,
     v_promptTokens = Fin 0, lastStats = no_stats, fullText = [],
     calls = [\<lparr>instant = startTime, fraction = Fin (1 / 10), reported = zero_metrics\<rparr>]\<rparr>"

text \<open>The body of the \<open>for\<close> loop for a line that parsed.\<close>

definition processLine ::
  "OllamaEndpointConfig \<Rightarrow> real \<Rightarrow> real \<Rightarrow> unit OllamaResponse_scheme \<Rightarrow> gen_vars \<Rightarrow> gen_vars" where
  "processLine cfg startTime now d s =
    (let s1 = s\<lparr>fullText := fullText s @ response d\<rparr>;
         s2 = (if done_flag d
               then s1\<lparr>lastStats := \<lparr>total_duration = total_duration d,
                        eval_count = eval_count d, eval_duration = eval_duration d,
                        prompt_eval_count = prompt_eval_count d,
                        prompt_eval_duration = prompt_eval_duration d\<rparr>\<rparr>
               else s1)
     in if truthyOpt (eval_count d) then
          (let timeSinceStart = (now - startTime) / 1000;
               ec = toNumber (eval_count d);
               pec = toNumber (prompt_eval_count d);
               completion = ec;
               prompt = (if jsge pec ec then mathMax (Fin 0) (jssub pec ec)
                         else mathMax (Fin 0) pec);
               total = (if jsge pec ec then pec else jsadd prompt completion);
               metrics = \<lparr>responseTime = Fin (timeSinceStart * 1000),
                  tokensPerSecond = jsdiv completion
                    (jsor (jsdiv (toNumber (eval_duration d)) (Fin 1000000000)) (Fin timeSinceStart)),
                  totalTokens = total, promptTokens = prompt, completionTokens = completion,
                  processingTime = Some (jsdiv (toNumber (total_duration d)) (Fin 1000000000)),
                  contextSize = None\<rparr>;
               progress = jsdiv ec (orDefault (maxTokens cfg) (Fin 128))
           in s2\<lparr>v_completionTokens := completion, v_promptTokens := prompt,
                 v_totalTokens := total,
                 calls := calls s2 @
                   [\<lparr>instant = now, fraction = mathMin progress (Fin (99 / 100)), reported = metrics\<rparr>]\<rparr>)
        else s2)"

text \<open>The \<open>while\<close> loop over the body: it ends with the body, or with a failed read.\<close>

fun consume ::
  "OllamaEndpointConfig \<Rightarrow> real \<Rightarrow> read_event list \<Rightarrow> gen_vars \<Rightarrow> gen_vars \<times> jserror option" where
  "consume cfg startTime [] s = (s, None)"
| "consume cfg startTime (Line now Malformed # es) s = consume cfg startTime es s"
| "consume cfg startTime (Line now (Parsed d) # es) s =
     consume cfg startTime es (processLine cfg startTime now d s)"
| "consume cfg startTime (ReadFailure msg # es) s = (s, Some (StreamReadError msg))"

text \<open>The code after the loop: the final metrics from \<open>lastStats\<close> and the counters.\<close>

definition finalMetrics :: "OllamaEndpointConfig \<Rightarrow> real \<Rightarrow> real \<Rightarrow> gen_vars \<Rightarrow> ModelMetrics" where
  "finalMetrics cfg startTime endTime s =
    (let ls = lastStats s;
         responseTime' = (if truthyOpt (total_duration ls)
                          then jsdiv (toNumber (total_duration ls)) (Fin 1000000)
                          else Fin (endTime - startTime));
         processingTime' = jsor
            (jsdiv (jsadd (toNumber (prompt_eval_duration ls)) (toNumber (eval_duration ls)))
                   (Fin 1000000000))
            (Fin ((endTime - startTime) / 1000));
         prompt = (if jslt (v_promptTokens s) (Fin 0) then Fin 0 else v_promptTokens s);
         total = jsadd prompt (v_completionTokens s);
         tps = jsdiv (v_completionTokens s)
                 (jsor (jsdiv (toNumber (eval_duration ls)) (Fin 1000000000)) processingTime')
     in \<lparr>responseTime = responseTime',
         tokensPerSecond = (if isFinite tps then tps else Fin 0),
         totalTokens = total, promptTokens = prompt,
         completionTokens = v_completionTokens s,
         processingTime = Some processingTime',
         contextSize = context_size cfg\<rparr>)"

text \<open>
  \<open>generateCompletion\<close>: the calls of \<open>onProgress\<close> it makes, in order, and its outcome,
  \<open>Inl\<close> for a rejected promise. \<open>startTime\<close> and \<open>endTime\<close> are the two readings of the
  clock outside the loop; the prompt only goes into the request.
\<close>

definition generateCompletion ::
  "OllamaEndpointConfig \<Rightarrow> string \<Rightarrow> real \<Rightarrow> fetch_result \<Rightarrow> real
     \<Rightarrow> progress_call list \<times> (jserror + ModelMetrics)" where
  "generateCompletion cfg prompt startTime fetched endTime =
    (case fetched of
       NetworkFailure msg \<Rightarrow> (calls (init_vars startTime), Inl (NetworkError msg))
     | HttpResponse ok status statusText body \<Rightarrow>
         if \<not> ok then (calls (init_vars startTime), Inl (ApiError status statusText))
         else (case consume cfg startTime body (init_vars startTime) of
                 (s, Some e) \<Rightarrow> (calls s, Inl e)
               | (s, None) \<Rightarrow>
                   (let m = finalMetrics cfg startTime endTime s
                    in (calls s @ [\<lparr>instant = endTime, fraction = Fin 1, reported = m\<rparr>], Inr m))))"

subsection \<open>The progress callback of \<open>handleCompare\<close>\<close>

text \<open>
  The dashboard passes \<open>generateCompletion\<close> a callback that reads the clock and
  applies the report to the progress state only when more than 50 ms have passed since the
  report it applied last; \<open>lastProgressUpdate\<close> starts at 0. The reading of the clock
  is the instant of the call.
\<close>

record throttle =
  lastProgressUpdate :: real
  applied :: "progress_call list"

definition throttle_init :: throttle where
  "throttle_init = \<lparr>lastProgressUpdate = 0, applied = []\<rparr>"

definition progressCallback :: "throttle \<Rightarrow> progress_call \<Rightarrow> throttle" where
  "progressCallback th c =
     (let now = instant c
      in if now - lastProgressUpdate th > 50
         then \<lparr>lastProgressUpdate = now, applied = applied th @ [c]\<rparr>
         else th)"

definition appliedReports :: "progress_call list \<Rightarrow> progress_call list" where
  "appliedReports cs = applied (foldl progressCallback throttle_init cs)"

section \<open>The run orchestrator (\<open>ComparisonService\<close>)\<close>

subsection \<open>Data\<close>

record ApiConfig =
  id_api :: string
  name_api :: string
  enabled_api :: bool
  provider_api :: string
  modelName_api :: string

record ProviderConfigs =
  ollama :: "OllamaEndpointConfig list"
  api :: "ApiConfig list"

text \<open>An \<open>OllamaService\<close> holds its configuration and the model information it has
  loaded so far: for a model name, the \<open>name\<close> field of the stored information.\<close>

record OllamaService =
  config :: OllamaEndpointConfig
  modelInfo :: "(string \<times> string) list"

record ApiService =
  config_api :: ApiConfig

record ComparisonService =
  configs :: ProviderConfigs
  services_ollama :: "OllamaService list"
  services_api :: "ApiService list"

record ModelResponse =
  id_resp :: string
  provider_resp :: string
  model :: string
  text_resp :: string
  metrics :: ModelMetrics
  error :: "string option"

record ComparisonResult =
  prompt_res :: string
  timestamp_res :: string
  responses :: "ModelResponse list"
  totalTime :: real
  errors :: "string list option"

text \<open>
  What one asynchronous task of \<open>compareModels\<close> leaves behind: the \<open>model-progress\<close>
  events it dispatched (model id and report), how its promise settled (\<open>Inl\<close> for a
  rejection), and the message it pushed on \<open>errors\<close>, if any.
\<close>

record task_result =
  dispatched :: "(string \<times> progress_call) list"
  settled :: "jserror + ModelResponse"
  pushed :: "string option"

text \<open>
  The environment of one comparison: the readings of the clock, the time stamp, what the
  network returns to the run launched for the \<open>i\<close>-th Ollama configuration (with the
  clock readings of that run), the calls and outcome of
  \<open>ApiService.generateCompletion\<close> for the \<open>j\<close>-th API configuration with the instant
  at which it settles, and the order
  in which the tasks finish (Ollama tasks are numbered first, API tasks after them).
\<close>

record cmp_env =
  t_start :: real
  t_end :: real
  stamp :: string
  ollamaNet :: "nat \<Rightarrow> real \<times> fetch_result \<times> real"
  apiNet :: "nat \<Rightarrow> progress_call list \<times> (jserror + ModelMetrics) \<times> real"
  settleOrder :: "nat list"

subsection \<open>Operations\<close>

text \<open>Decimal digits of a status code, for the message of the error.\<close>

fun show_nat :: "nat \<Rightarrow> string" where
  "show_nat n = (if n < 10 then [char_of (48 + n)]
                 else show_nat (n div 10) @ [char_of (48 + n mod 10)])"

declare show_nat.simps [simp del]

fun message :: "jserror \<Rightarrow> string" where
  "message (ApiError status statusText) =
     ''Ollama API error: '' @ show_nat status @ '' '' @ statusText"
| "message (NetworkError msg) = msg"
| "message (StreamReadError msg) = msg"

definition newOllamaService :: "OllamaEndpointConfig \<Rightarrow> OllamaService" where
  "newOllamaService c = \<lparr>config = c, modelInfo = []\<rparr>"

definition newApiService :: "ApiConfig \<Rightarrow> ApiService" where
  "newApiService c = \<lparr>config_api = c\<rparr>"

definition getModelInfo :: "OllamaService \<Rightarrow> string \<Rightarrow> string option" where
  "getModelInfo s n = map_of (modelInfo s) n"

definition updateConfigs :: "ProviderConfigs \<Rightarrow> ComparisonService \<Rightarrow> ComparisonService" where
  "updateConfigs cs svc =
     \<lparr>configs = cs,
      services_ollama = map newOllamaService (filter enabled (ollama cs)),
      services_api = map newApiService (filter enabled_api (api cs))\<rparr>"

definition getActiveConfigs :: "ComparisonService \<Rightarrow> ProviderConfigs" where
  "getActiveConfigs svc = configs svc"

text \<open>\<open>Array.prototype.findIndex\<close>, with \<open>None\<close> for \<open>-1\<close>.\<close>

fun findIndex :: "('a \<Rightarrow> bool) \<Rightarrow> 'a list \<Rightarrow> nat option" where
  "findIndex P [] = None"
| "findIndex P (x # xs) =
     (if P x then Some 0 else map_option Suc (findIndex P xs))"

definition error_metrics :: ModelMetrics where
  "error_metrics = \<lparr>responseTime = Fin 0, tokensPerSecond = Fin 0, totalTokens = Fin 0,
     promptTokens = Fin 0, completionTokens = Fin 0, processingTime = None,
     contextSize = None\<rparr>"

text \<open>
  The asynchronous function mapped over the Ollama configurations: it picks or creates
  the service, runs \<open>generateCompletion\<close> on it, and turns the outcome into a response;
  the \<open>catch\<close> turns an error into an error response and pushes a message. It returns
  the list of services as well, which it may have extended.
\<close>

definition ollamaTask ::
  "string \<Rightarrow> real \<times> fetch_result \<times> real \<Rightarrow> OllamaService list \<Rightarrow> OllamaEndpointConfig
     \<Rightarrow> OllamaService list \<times> task_result" where
  "ollamaTask prompt net svcs c =
    (let found = findIndex (\<lambda>s. getModelInfo s (modelName c) = Some (modelName c)) svcs;
         service = (case found of None \<Rightarrow> newOllamaService c | Some i \<Rightarrow> svcs ! i);
         svcs' = (case found of None \<Rightarrow> svcs @ [service] | Some i \<Rightarrow> svcs);
         (startTime, fetched, endTime) = net;
         (cs, outcome) = generateCompletion (config service) prompt startTime fetched endTime;
         events = map (\<lambda>call. (id_cfg c, call)) cs
     in case outcome of
          Inr m \<Rightarrow>
            (svcs',
             \<lparr>dispatched = events @ [(id_cfg c, \<lparr>instant = endTime, fraction = Fin 1, reported = m\<rparr>)],
              settled = Inr \<lparr>id_resp = id_cfg c, provider_resp = ''ollama'', model = modelName c,
                 text_resp = ''Response text will be available in the final result'',
                 metrics = m, error = None\<rparr>,
              pushed = None\<rparr>)
        | Inl e \<Rightarrow>
            (svcs',
             \<lparr>dispatched = events,
              settled = Inr \<lparr>id_resp = id_cfg c, provider_resp = ''ollama'', model = modelName c,
                 text_resp = [], metrics = error_metrics, error = Some (message e)\<rparr>,
              pushed = Some (''Error with Ollama model '' @ modelName c @ '': '' @ message e)\<rparr>))"

text \<open>The same for an API configuration; the service is looked up by its id.\<close>

definition apiTask ::
  "progress_call list \<times> (jserror + ModelMetrics) \<times> real \<Rightarrow> ApiService list \<Rightarrow> ApiConfig
     \<Rightarrow> ApiService list \<times> task_result" where
  "apiTask run svcs c =
    (let found = findIndex (\<lambda>s. id_api (config_api s) = id_api c) svcs;
         svcs' = (case found of None \<Rightarrow> svcs @ [newApiService c] | Some i \<Rightarrow> svcs);
         (cs, outcome, endTime) = run;
         events = map (\<lambda>call. (id_api c, call)) cs
     in case outcome of
          Inr m \<Rightarrow>
            (svcs',
             \<lparr>dispatched = events @ [(id_api c, \<lparr>instant = endTime, fraction = Fin 1, reported = m\<rparr>)],
              settled = Inr \<lparr>id_resp = id_api c, provider_resp = provider_api c,
                 model = modelName_api c,
                 text_resp = ''Response text will be available in the final result'',
                 metrics = m, error = None\<rparr>,
              pushed = None\<rparr>)
        | Inl e \<Rightarrow>
            (svcs',
             \<lparr>dispatched = events,
              settled = Inr \<lparr>id_resp = id_api c, provider_resp = provider_api c,
                 model = modelName_api c,
                 text_resp = [], metrics = error_metrics, error = Some (message e)\<rparr>,
              pushed = Some (''Error with API model '' @ modelName_api c @ '': '' @ message e)\<rparr>))"

text \<open>
  \<open>Array.prototype.map\<close> with these functions: the synchronous part of each task runs
  in the order of the configurations, so the list of services is passed along; \<open>i\<close> is
  the index of the first configuration.
\<close>

fun ollamaTasks ::
  "string \<Rightarrow> (nat \<Rightarrow> real \<times> fetch_result \<times> real) \<Rightarrow> nat \<Rightarrow> OllamaService list
     \<Rightarrow> OllamaEndpointConfig list \<Rightarrow> OllamaService list \<times> task_result list" where
  "ollamaTasks prompt net i svcs [] = (svcs, [])"
| "ollamaTasks prompt net i svcs (c # cs) =
     (let (svcs1, r) = ollamaTask prompt (net i) svcs c;
          (svcs2, rs) = ollamaTasks prompt net (Suc i) svcs1 cs
      in (svcs2, r # rs))"

fun apiTasks ::
  "(nat \<Rightarrow> progress_call list \<times> (jserror + ModelMetrics) \<times> real) \<Rightarrow> nat \<Rightarrow> ApiService list
     \<Rightarrow> ApiConfig list \<Rightarrow> ApiService list \<times> task_result list" where
  "apiTasks run j svcs [] = (svcs, [])"
| "apiTasks run j svcs (c # cs) =
     (let (svcs1, r) = apiTask (run j) svcs c;
          (svcs2, rs) = apiTasks run (Suc j) svcs1 cs
      in (svcs2, r # rs))"

text \<open>\<open>Promise.all\<close>: rejected as soon as one of the promises is, else the list of
  the values.\<close>

fun promiseAll :: "(jserror + 'a) list \<Rightarrow> jserror + 'a list" where
  "promiseAll [] = Inr []"
| "promiseAll (Inl e # ps) = Inl e"
| "promiseAll (Inr v # ps) = (case promiseAll ps of Inl e \<Rightarrow> Inl e | Inr vs \<Rightarrow> Inr (v # vs))"

text \<open>The messages on \<open>errors\<close>, pushed in the order in which the tasks finish.\<close>

definition pushedErrors :: "nat list \<Rightarrow> task_result list \<Rightarrow> string list" where
  "pushedErrors order tasks =
     List.map_filter (\<lambda>i. if i < length tasks then pushed (tasks ! i) else None) order"

definition compareModels ::
  "cmp_env \<Rightarrow> ComparisonService \<Rightarrow> string \<Rightarrow> ComparisonService \<times> (jserror + ComparisonResult)" where
  "compareModels env svc prompt =
    (let activeConfigs = getActiveConfigs svc;
         (osvcs, otasks) = ollamaTasks prompt (ollamaNet env) 0 (services_ollama svc) (ollama activeConfigs);
         (asvcs, atasks) = apiTasks (apiNet env) 0 (services_api svc) (api activeConfigs);
         svc' = svc\<lparr>services_ollama := osvcs, services_api := asvcs\<rparr>;
         errs = pushedErrors (settleOrder env) (otasks @ atasks)
     in case promiseAll (map settled otasks) of
          Inl e \<Rightarrow> (svc', Inl e)
        | Inr ollamaResponses \<Rightarrow>
            (case promiseAll (map settled atasks) of
               Inl e \<Rightarrow> (svc', Inl e)
             | Inr apiResponses \<Rightarrow>
                 (svc', Inr \<lparr>prompt_res = prompt, timestamp_res = stamp env,
                    responses = ollamaResponses @ apiResponses,
                    totalTime = t_end env - t_start env,
                    errors = (if length errs > 0 then Some errs else None)\<rparr>)))"

section \<open>The time-series aggregator (\<open>ComparisonDashboard\<close>)\<close>

subsection \<open>Data\<close>

text \<open>
  A data point is a time stamp and, for model names, a value. The time stamp is an
  ISO-8601 string in the code, written by \<open>toISOString\<close> and read back by
  \<open>new Date(...).getTime()\<close>; here it is the number of milliseconds it denotes. The
  other properties of the object are an association list in insertion order, as
  \<open>Object.keys\<close> lists them; an absent property is \<open>undefined\<close>. No model is
  named \<open>timestamp\<close>.
\<close>

datatype jsval = Num jsnum | Str string | Null

record PerformanceDataPoint =
  timestamp :: int
  vals :: "(string \<times> jsval) list"

text \<open>Of an enabled model the aggregator reads the id and the display name.\<close>

record EnabledModel =
  id_model :: string
  name_model :: string

record ModelProgress =
  startTime_mp :: "real option"
  isComplete :: "bool option"
  progress_mp :: "jsnum option"
  metrics_mp :: "ModelMetrics option"

record ExtendedModelResponse =
  modelId :: string
  modelName_r :: string
  responseTime_r :: jsnum
  tokensPerSecond_r :: jsnum

text \<open>The state of the component that the aggregator reads and writes.\<close>

record dashboard =
  results :: "ExtendedModelResponse list"
  modelProgress :: "(string \<times> ModelProgress) list"
  performanceHistory :: "PerformanceDataPoint list"
  enabledModels :: "EnabledModel list"
  selectedModelIds :: "string list"

text \<open>The detail of a \<open>model-progress\<close> event.\<close>

record progress_event =
  ev_modelId :: string
  ev_progress :: jsnum
  ev_metrics :: "ModelMetrics option"

subsection \<open>Operations\<close>

text \<open>\<open>obj[k] = v\<close>: replaces the value of an existing property, else adds the property
  at the end.\<close>

fun setProp :: "'k \<Rightarrow> 'v \<Rightarrow> ('k \<times> 'v) list \<Rightarrow> ('k \<times> 'v) list" where
  "setProp k v [] = [(k, v)]"
| "setProp k v ((k', v') # kvs) =
     (if k' = k then (k, v) # kvs else (k', v') # setProp k v kvs)"

definition createPerformanceDataPoint ::
  "int \<Rightarrow> dashboard \<Rightarrow> ExtendedModelResponse list \<Rightarrow> PerformanceDataPoint" where
  "createPerformanceDataPoint now st modelMetrics =
    (let fromMetrics = foldl (\<lambda>vs metric.
            if modelName_r metric \<noteq> [] then setProp (modelName_r metric) (Num (tokensPerSecond_r metric)) vs
            else vs) [] modelMetrics;
         fromProgress = foldl (\<lambda>vs (mid, pr).
            case find (\<lambda>m. id_model m = mid) (enabledModels st) of
              None \<Rightarrow> vs
            | Some m \<Rightarrow>
                if mid \<notin> set (selectedModelIds st) then vs
                else (case metrics_mp pr of
                        None \<Rightarrow> vs
                      | Some mt \<Rightarrow>
                          if name_model m \<noteq> [] \<and> map_of vs (name_model m) = None
                          then setProp (name_model m) (Num (tokensPerSecond mt)) vs
                          else vs)) fromMetrics (modelProgress st)
     in \<lparr>timestamp = now, vals = fromProgress\<rparr>)"




text \<open>The listener for \<open>model-progress\<close> events. The data point is built from the state
  the listener was created with, before the update of the progress.\<close>

definition handleModelProgress :: "int \<Rightarrow> progress_event \<Rightarrow> dashboard \<Rightarrow> dashboard" where
  "handleModelProgress date ev st =
    (let prev = (case map_of (modelProgress st) (ev_modelId ev) of
                   None \<Rightarrow> \<lparr>startTime_mp = None, isComplete = None, progress_mp = None, metrics_mp = None\<rparr>
                 | Some mp \<Rightarrow> mp);
         st1 = st\<lparr>modelProgress := setProp (ev_modelId ev)
                  (prev\<lparr>progress_mp := Some (jsmul (ev_progress ev) (Fin 100)), metrics_mp := ev_metrics ev\<rparr>)
                  (modelProgress st)\<rparr>
     in if jslt (Fin 0) (ev_progress ev) then
          (case find (\<lambda>m. id_model m = ev_modelId ev) (enabledModels st) of
             None \<Rightarrow> st1
           | Some m \<Rightarrow>
               (case ev_metrics ev of
                  None \<Rightarrow> st1
                | Some mt \<Rightarrow>
                    (let dp = createPerformanceDataPoint date st (results st);
                         newDataPoint = dp\<lparr>vals := setProp (name_model m) (Num (tokensPerSecond mt)) (vals dp)\<rparr>
                     in st1\<lparr>performanceHistory := performanceHistory st1 @ [newDataPoint]\<rparr>)))
        else st1)"

subsection \<open>The writes of the history\<close>









section \<open>The chart preprocessor\<close>

text \<open>
  \<open>processedData\<close> of \<open>PerformanceChart\<close> and of \<open>AdvancedPerformanceChart\<close>. Both
  begin alike: nothing for an empty buffer, a duplicated point for a single one, else the
  points sorted by time (the sort is stable) and normalised to the keys that the selection
  admits. \<open>PerformanceChart\<close> then interpolates, \<open>AdvancedPerformanceChart\<close> smooths.
\<close>

definition timeStep :: int where
  "timeStep = 50"

definition singlePoint :: "PerformanceDataPoint \<Rightarrow> PerformanceDataPoint list" where
  "singlePoint firstPoint = [firstPoint, firstPoint\<lparr>timestamp := timestamp firstPoint + 100\<rparr>]"

text \<open>\<open>!selectedModels.length || selectedModels.includes(key)\<close>\<close>

definition admitted :: "string list \<Rightarrow> string \<Rightarrow> bool" where
  "admitted selectedModels key = (selectedModels = [] \<or> key \<in> set selectedModels)"

text \<open>\<open>Set.prototype.add\<close> on a set kept in insertion order.\<close>

definition addKey :: "string \<Rightarrow> string list \<Rightarrow> string list" where
  "addKey key ks = (if key \<in> set ks then ks else ks @ [key])"

definition allModelKeys :: "string list \<Rightarrow> PerformanceDataPoint list \<Rightarrow> string list" where
  "allModelKeys selectedModels sortedData =
     foldl (\<lambda>ks point.
        foldl (\<lambda>ks key. if admitted selectedModels key then addKey key ks else ks)
          ks (map fst (vals point)))
       [] sortedData"

definition normalizePoint :: "string list \<Rightarrow> PerformanceDataPoint \<Rightarrow> PerformanceDataPoint" where
  "normalizePoint keys point =
     \<lparr>timestamp = timestamp point,
      vals = map (\<lambda>key. (key, case map_of (vals point) key of Some v \<Rightarrow> v | None \<Rightarrow> Null)) keys\<rparr>"

definition normalizedData :: "string list \<Rightarrow> PerformanceDataPoint list \<Rightarrow> PerformanceDataPoint list" where
  "normalizedData selectedModels data =
     (let sortedData = sort_key timestamp data;
          keys = allModelKeys selectedModels sortedData
      in map (normalizePoint keys) sortedData)"

definition cubicInterpolate :: "jsnum \<Rightarrow> jsnum \<Rightarrow> jsnum \<Rightarrow> jsnum" where
  "cubicInterpolate start end' progress =
     (let t = jsmul (jsmul progress progress) (jssub (Fin 3) (jsmul (Fin 2) progress))
      in jsadd start (jsmul (jssub end' start) t))"

text \<open>The time value of a \<open>Date\<close> built from a number: truncated towards zero.\<close>

definition timeClip :: "real \<Rightarrow> int" where
  "timeClip r = (if 0 \<le> r then \<lfloor>r\<rfloor> else \<lceil>r\<rceil>)"

text \<open>The property that an interpolated point gets for a key: the interpolated number
  when both neighbours have a number, else the value of the current point, if it has one.\<close>

definition interpolatedEntry ::
  "PerformanceDataPoint \<Rightarrow> PerformanceDataPoint \<Rightarrow> real \<Rightarrow> string \<Rightarrow> (string \<times> jsval) option" where
  "interpolatedEntry currentPoint nextPoint prog key =
     (case (map_of (vals currentPoint) key, map_of (vals nextPoint) key) of
        (Some (Num a), Some (Num b)) \<Rightarrow> Some (key, Num (cubicInterpolate a b (Fin prog)))
      | (Some v, _) \<Rightarrow> Some (key, v)
      | (None, _) \<Rightarrow> None)"

definition interpolatedPoint ::
  "string list \<Rightarrow> PerformanceDataPoint \<Rightarrow> PerformanceDataPoint \<Rightarrow> int \<Rightarrow> nat \<Rightarrow> PerformanceDataPoint" where
  "interpolatedPoint keys currentPoint nextPoint steps step =
    (let currentTime = timestamp currentPoint;
         timeDiff = timestamp nextPoint - currentTime;
         prog = real step / real_of_int steps
     in \<lparr>timestamp = timeClip (real_of_int currentTime + real_of_int timeDiff * prog),
         vals = List.map_filter (interpolatedEntry currentPoint nextPoint prog) keys\<rparr>)"

text \<open>The synthetic points between two consecutive normalised points.\<close>

definition gapPoints ::
  "string list \<Rightarrow> PerformanceDataPoint \<Rightarrow> PerformanceDataPoint \<Rightarrow> PerformanceDataPoint list" where
  "gapPoints keys currentPoint nextPoint =
    (let timeDiff = timestamp nextPoint - timestamp currentPoint
     in if timeDiff > timeStep * 2 then
          (let steps = min (timeDiff div timeStep) 20
           in map (interpolatedPoint keys currentPoint nextPoint steps) [1..<nat steps])
        else [])"

text \<open>The loop over the normalised points, and the push of the last one.\<close>

fun interpolateAll :: "string list \<Rightarrow> PerformanceDataPoint list \<Rightarrow> PerformanceDataPoint list" where
  "interpolateAll keys [] = []"
| "interpolateAll keys [p] = [p]"
| "interpolateAll keys (p # q # ps) = p # gapPoints keys p q @ interpolateAll keys (q # ps)"

definition processedData :: "string list \<Rightarrow> PerformanceDataPoint list \<Rightarrow> PerformanceDataPoint list" where
  "processedData selectedModels data =
    (case data of
       [] \<Rightarrow> []
     | [firstPoint] \<Rightarrow> singlePoint firstPoint
     | _ \<Rightarrow>
        (let sortedData = sort_key timestamp data;
             keys = allModelKeys selectedModels sortedData
         in interpolateAll keys (map (normalizePoint keys) sortedData)))"

text \<open>The smoothing of \<open>AdvancedPerformanceChart\<close>: the mean of the numbers of a key in
  a window around the point, \<open>null\<close> when there is none.\<close>

definition smoothingWindow :: "real \<Rightarrow> nat \<Rightarrow> nat" where
  "smoothingWindow smoothing n = nat (max 2 \<lfloor>real n * (smoothing / 100)\<rfloor>)"

definition windowValues :: "PerformanceDataPoint list \<Rightarrow> nat \<Rightarrow> nat \<Rightarrow> string \<Rightarrow> jsnum list" where
  "windowValues nd w i key =
     List.map_filter (\<lambda>j. case map_of (vals (nd ! j)) key of
                               Some (Num v) \<Rightarrow> (if v \<noteq> NaN then Some v else None)
                             | _ \<Rightarrow> None)
       [i - w ..< Suc (min (length nd - 1) (i + w))]"

definition smoothedPoint :: "string list \<Rightarrow> PerformanceDataPoint list \<Rightarrow> nat \<Rightarrow> nat \<Rightarrow> PerformanceDataPoint" where
  "smoothedPoint keys nd w i =
     \<lparr>timestamp = timestamp (nd ! i),
      vals = map (\<lambda>key.
         (let values = windowValues nd w i key
          in (key, if length values > 0
                   then Num (jsdiv (foldl jsadd (Fin 0) values) (Fin (real (length values))))
                   else Null))) keys\<rparr>"

definition processedDataAdvanced ::
  "real \<Rightarrow> string list \<Rightarrow> PerformanceDataPoint list \<Rightarrow> PerformanceDataPoint list" where
  "processedDataAdvanced smoothing selectedModels data =
    (case data of
       [] \<Rightarrow> []
     | [firstPoint] \<Rightarrow> singlePoint firstPoint
     | _ \<Rightarrow>
        (let sortedData = sort_key timestamp data;
             keys = allModelKeys selectedModels sortedData;
             nd = map (normalizePoint keys) sortedData;
             w = smoothingWindow smoothing (length nd)
         in map (smoothedPoint keys nd w) [0..<length nd]))"

section \<open>Predicates of the specification and concrete inputs\<close>

text \<open>A read of the body that fails; a line that makes \<open>generateCompletion\<close> report
  progress; the clock reading of a line; a line that reports nothing.\<close>

fun isReadFailure :: "read_event \<Rightarrow> bool" where
  "isReadFailure (ReadFailure msg) = True"
| "isReadFailure (Line now l) = False"

fun reports :: "read_event \<Rightarrow> bool" where
  "reports (Line now (Parsed d)) = truthyOpt (eval_count d)"
| "reports e = False"

fun eventTime :: "read_event \<Rightarrow> real" where
  "eventTime (Line now l) = now"
| "eventTime (ReadFailure msg) = 0"

fun quiet :: "read_event \<Rightarrow> bool" where
  "quiet (Line now (Parsed d)) = (\<not> truthyOpt (eval_count d))"
| "quiet (Line now Malformed) = True"
| "quiet (ReadFailure msg) = False"

text \<open>\<open>a == b\<close> on numbers: \<open>NaN\<close> equals nothing.\<close>

definition jseq :: "jsnum \<Rightarrow> jsnum \<Rightarrow> bool" where
  "jseq a b = (a \<noteq> NaN \<and> b \<noteq> NaN \<and> a = b)"

text \<open>The invariant of the specification on a metrics record, in its words.\<close>

definition metricsInvariant :: "ModelMetrics \<Rightarrow> bool" where
  "metricsInvariant m =
     (jsge (promptTokens m) (Fin 0) \<and> jsge (completionTokens m) (Fin 0) \<and>
      jseq (totalTokens m) (jsadd (promptTokens m) (completionTokens m)) \<and>
      isFinite (tokensPerSecond m) \<and> jsge (tokensPerSecond m) (Fin 0))"

definition tokenCounts :: "ModelMetrics \<Rightarrow> jsnum \<times> jsnum \<times> jsnum" where
  "tokenCounts m = (promptTokens m, completionTokens m, totalTokens m)"

text \<open>The prompt-token correction in the words of the specification: prompt, completion
  and total tokens from the raw \<open>promptEvalCount\<close> and \<open>evalCount\<close>.\<close>

definition correctedTokens :: "real \<Rightarrow> real \<Rightarrow> jsnum \<times> jsnum \<times> jsnum" where
  "correctedTokens promptEvalCount evalCount =
     (let completionTokens' = evalCount
      in if promptEvalCount \<ge> completionTokens'
         then (Fin (max 0 (promptEvalCount - completionTokens')), Fin completionTokens', Fin promptEvalCount)
         else (Fin (max 0 promptEvalCount), Fin completionTokens',
               Fin (max 0 promptEvalCount + completionTokens')))"

text \<open>\<open>estimateTokenCount\<close>, the estimate of a quarter of the length, rounded up. It
  is a private method of the second copy of \<open>OllamaService\<close>, called by its
  \<open>calculateMetrics\<close> alone, which nothing calls.\<close>

definition estimateTokenCount :: "string \<Rightarrow> int" where
  "estimateTokenCount text' = \<lceil>real (length text') / 4\<rceil>"

text \<open>The invariant of the throttle of the dashboard callback.\<close>

definition throttled :: "throttle \<Rightarrow> bool" where
  "throttled th =
     (successively (\<lambda>a b. 50 < instant b - instant a) (applied th)
      \<and> (applied th \<noteq> [] \<longrightarrow> lastProgressUpdate th = instant (last (applied th))))"

definition demoConfig :: OllamaEndpointConfig where
  "demoConfig = \<lparr>id_cfg = ''m1'', name_cfg = ''Model 1'', enabled = True, provider = ''ollama'',
     baseUrl = ''http://localhost:11434'', modelName = ''llama2'', maxTokens = None,
     context_size = None\<rparr>"

text \<open>A streamed record with the given \<open>prompt_eval_count\<close>, \<open>eval_count\<close>,
  \<open>eval_duration\<close>, \<open>done\<close> and \<open>response\<close>, and no other statistics.\<close>

definition statsRecord ::
  "jsnum option \<Rightarrow> jsnum option \<Rightarrow> jsnum option \<Rightarrow> bool \<Rightarrow> string \<Rightarrow> unit OllamaResponse_scheme" where
  "statsRecord pec ec ed dn txt =
     \<lparr>total_duration = None, eval_count = ec, eval_duration = ed, prompt_eval_count = pec,
      prompt_eval_duration = None, response = txt, done_flag = dn\<rparr>"

text \<open>A run whose final record has no \<open>prompt_eval_count\<close>, as Ollama sends it when
  the prompt was cached.\<close>

definition cachedPromptRun :: "progress_call list \<times> (jserror + ModelMetrics)" where
  "cachedPromptRun = generateCompletion demoConfig ''Why is the sky blue?'' 0
     (HttpResponse True 200 ''OK''
        [Line 1000 (Parsed (statsRecord None (Some (Fin 3)) (Some (Fin 1000000000)) True ''hi''))])
     1001"

text \<open>A run without any \<open>eval_count\<close>; one whose only record has \<open>eval_count\<close> 0;
  one with two reporting lines a millisecond apart.\<close>

definition silentRun :: "progress_call list \<times> (jserror + ModelMetrics)" where
  "silentRun = generateCompletion demoConfig ''hello world!'' 0
     (HttpResponse True 200 ''OK''
        [Line 1000 (Parsed (statsRecord None None None False ''abcd'')),
         Line 1010 (Parsed (statsRecord None None None True ''efgh''))])
     1011"

definition zeroEvalRun :: "progress_call list \<times> (jserror + ModelMetrics)" where
  "zeroEvalRun = generateCompletion demoConfig ''p'' 0
     (HttpResponse True 200 ''OK''
        [Line 1000 (Parsed (statsRecord (Some (Fin 5)) (Some (Fin 0)) None True []))])
     1001"

definition burstRun :: "progress_call list \<times> (jserror + ModelMetrics)" where
  "burstRun = generateCompletion demoConfig ''p'' 0
     (HttpResponse True 200 ''OK''
        [Line 1000 (Parsed (statsRecord (Some (Fin 20)) (Some (Fin 1)) None False ''a'')),
         Line 1001 (Parsed (statsRecord (Some (Fin 20)) (Some (Fin 2)) None True ''b''))])
     1002"

text \<open>A fetch that delivers a complete body: an OK response, read without failure.\<close>

fun delivered :: "fetch_result \<Rightarrow> bool" where
  "delivered (NetworkFailure msg) = False"
| "delivered (HttpResponse ok status statusText body) =
     (ok \<and> list_all (\<lambda>e. \<not> isReadFailure e) body)"

text \<open>Zeroed metrics, in the words of the claim: \<open>responseTime\<close>, \<open>tokensPerSecond\<close>,
  \<open>totalTokens\<close>, \<open>promptTokens\<close> and \<open>completionTokens\<close> are all 0.\<close>

definition zeroedMetrics :: "ModelMetrics \<Rightarrow> bool" where
  "zeroedMetrics m =
     (responseTime m = Fin 0 \<and> tokensPerSecond m = Fin 0 \<and> totalTokens m = Fin 0
      \<and> promptTokens m = Fin 0 \<and> completionTokens m = Fin 0)"

text \<open>The service on which the task for an Ollama configuration runs: the first one whose
  loaded model information names the model, else a new one.\<close>

definition chosenService :: "OllamaService list \<Rightarrow> OllamaEndpointConfig \<Rightarrow> OllamaService" where
  "chosenService svcs c =
     (case findIndex (\<lambda>s. getModelInfo s (modelName c) = Some (modelName c)) svcs of
        None \<Rightarrow> newOllamaService c
      | Some i \<Rightarrow> svcs ! i)"

text \<open>
  A task that settled well: it is fulfilled with a response for the given id; when its
  run was \<open>ok\<close>, the response has no error, the metrics \<open>m\<close> of the run, and nothing
  was pushed; when it was not, the response has an error and zeroed metrics, and a message
  was pushed.
\<close>

definition wellSettled :: "string \<Rightarrow> bool \<Rightarrow> ModelMetrics \<Rightarrow> task_result \<Rightarrow> bool" where
  "wellSettled ident ok m r =
     (\<not> isl (settled r) \<and> id_resp (projr (settled r)) = ident
      \<and> (error (projr (settled r)) = None) = ok \<and> (pushed r = None) = ok
      \<and> (if ok then metrics (projr (settled r)) = m
          else zeroedMetrics (metrics (projr (settled r)))))"

text \<open>Two Ollama configurations, of which the first endpoint answers with HTTP 500 and
  the second delivers a final record; a disabled configuration, stored by
  \<open>updateConfigs\<close>, whose endpoint would answer.\<close>

definition emptyService :: ComparisonService where
  "emptyService = \<lparr>configs = \<lparr>ollama = [], api = []\<rparr>, services_ollama = [], services_api = []\<rparr>"

definition secondConfig :: OllamaEndpointConfig where
  "secondConfig = demoConfig\<lparr>id_cfg := ''m2'', name_cfg := ''Model 2'', modelName := ''mistral''\<rparr>"

definition twoModels :: ComparisonService where
  "twoModels = updateConfigs \<lparr>ollama = [demoConfig, secondConfig], api = []\<rparr> emptyService"

definition goodFetch :: "real \<times> fetch_result \<times> real" where
  "goodFetch = (0, HttpResponse True 200 ''OK''
       [Line 1000 (Parsed (statsRecord (Some (Fin 20)) (Some (Fin 8)) (Some (Fin 1000000000)) True ''ok''))],
     1001)"

definition partialFailure :: cmp_env where
  "partialFailure = \<lparr>t_start = 0, t_end = 1100, stamp = ''2024-01-01T00:00:00.000Z'',
     ollamaNet = (\<lambda>i. if i = 0 then (0, HttpResponse False 500 ''Internal Server Error'' [], 20)
                       else goodFetch),
     apiNet = (\<lambda>j. ([], Inl (NetworkError ''no API model''), 0)),
     settleOrder = [0, 1]\<rparr>"

definition partialFailureResult :: ComparisonResult where
  "partialFailureResult = projr (snd (compareModels partialFailure twoModels ''p''))"

definition oneDisabled :: ComparisonService where
  "oneDisabled = updateConfigs \<lparr>ollama = [demoConfig\<lparr>enabled := False\<rparr>], api = []\<rparr> emptyService"

definition allGood :: cmp_env where
  "allGood = \<lparr>t_start = 0, t_end = 1100, stamp = ''2024-01-01T00:00:00.000Z'',
     ollamaNet = (\<lambda>i. goodFetch),
     apiNet = (\<lambda>j. ([], Inl (NetworkError ''no API model''), 0)),
     settleOrder = [0]\<rparr>"






text \<open>The cubic ease \<open>t' = t\<^sup>2 (3 - 2 t)\<close> of the specification, and the normalised
  progress of the \<open>k\<close>-th synthetic point (counted from 0) between two points: \<open>k + 1\<close>
  of \<open>min(\<lfloor>gap / 50\<rfloor>, 20)\<close> steps.\<close>

definition ease :: "real \<Rightarrow> real" where
  "ease t = t * t * (3 - 2 * t)"

definition normalizedProgress :: "PerformanceDataPoint \<Rightarrow> PerformanceDataPoint \<Rightarrow> nat \<Rightarrow> real" where
  "normalizedProgress currentPoint nextPoint k =
     real (Suc k)
       / real_of_int (min ((timestamp nextPoint - timestamp currentPoint) div 50) 20)"

text \<open>Two points 200 ms apart; a buffer in which model A has values at 0 and 100 and
  model B at 50.\<close>

definition gapStart :: PerformanceDataPoint where
  "gapStart = \<lparr>timestamp = 0, vals = [(''A'', Num (Fin 0))]\<rparr>"

definition gapEnd :: PerformanceDataPoint where
  "gapEnd = \<lparr>timestamp = 200, vals = [(''A'', Num (Fin 10))]\<rparr>"



definition abData :: "PerformanceDataPoint list" where
  "abData = [\<lparr>timestamp = 0, vals = [(''A'', Num (Fin 1))]\<rparr>,
             \<lparr>timestamp = 50, vals = [(''B'', Num (Fin 2))]\<rparr>,
             \<lparr>timestamp = 100, vals = [(''A'', Num (Fin 3))]\<rparr>]"


section \<open>Properties of the stream consumer\<close>

lemmas gen_defs = generateCompletion_def init_vars_def processLine_def finalMetrics_def
  statsRecord_def demoConfig_def no_stats_def zero_metrics_def truthyOpt_def toNumber_def
  jsor_def orDefault_def mathMax_def mathMin_def jssub_def Let_def

lemma consume_append:
  "consume cfg t0 (es @ fs) s =
     (case consume cfg t0 es s of (s', None) \<Rightarrow> consume cfg t0 fs s' | (s', Some e) \<Rightarrow> (s', Some e))"
  by (induction cfg t0 es s rule: consume.induct) simp_all

lemma consume_delivered:
  "list_all (\<lambda>e. \<not> isReadFailure e) es \<Longrightarrow> snd (consume cfg t0 es s) = None"
  by (induction cfg t0 es s rule: consume.induct) simp_all

text \<open>
  Claim C1: every metrics record that \<open>generateCompletion\<close> produces, those passed to
  \<open>onProgress\<close> and the one returned, has \<open>promptTokens \<ge> 0\<close>,
  \<open>completionTokens \<ge> 0\<close>, \<open>totalTokens = promptTokens + completionTokens\<close> and a finite
  \<open>tokensPerSecond \<ge> 0\<close>, also when \<open>prompt_eval_count\<close> is absent. The code does not
  achieve this: on a stream whose final record has \<open>eval_count = 3\<close> and no
  \<open>prompt_eval_count\<close>, the comparison with \<open>undefined\<close> fails, \<open>Math.max(0, undefined)\<close>
  is \<open>NaN\<close>, and neither the guard \<open>promptTokens < 0\<close> nor the recomputed sum removes
  it: the report passed to \<open>onProgress\<close> and the returned record both have
  \<open>promptTokens = NaN\<close> and \<open>totalTokens = NaN\<close>.
\<close>

theorem missing_prompt_eval_count_breaks_invariant:
  "length (fst cachedPromptRun) = 3
   \<and> \<not> isl (snd cachedPromptRun)
   \<and> promptTokens (projr (snd cachedPromptRun)) = NaN
   \<and> totalTokens (projr (snd cachedPromptRun)) = NaN
   \<and> \<not> metricsInvariant (projr (snd cachedPromptRun))
   \<and> fraction (fst cachedPromptRun ! 1) = Fin (3 / 128)
   \<and> promptTokens (reported (fst cachedPromptRun ! 1)) = NaN
   \<and> totalTokens (reported (fst cachedPromptRun ! 1)) = NaN
   \<and> \<not> metricsInvariant (reported (fst cachedPromptRun ! 1))"
  by (simp add: cachedPromptRun_def gen_defs metricsInvariant_def jseq_def)

lemma processLine_tokens:
  assumes "eval_count d = Some (Fin ec)" "ec \<noteq> 0" "prompt_eval_count d = Some (Fin pec)"
  shows "(v_promptTokens (processLine cfg t0 now d s), v_completionTokens (processLine cfg t0 now d s),
          v_totalTokens (processLine cfg t0 now d s)) = correctedTokens pec ec"
    and "tokenCounts (reported (last (calls (processLine cfg t0 now d s)))) = correctedTokens pec ec"
  using assms
  by (simp_all add: processLine_def correctedTokens_def truthyOpt_def toNumber_def mathMax_def
        jssub_def Let_def tokenCounts_def max_def)

lemma finalMetrics_tokens:
  assumes "(v_promptTokens s, v_completionTokens s, v_totalTokens s) = correctedTokens pec ec"
  shows "tokenCounts (finalMetrics cfg t0 t1 s) = correctedTokens pec ec"
  using assms
  by (auto simp add: finalMetrics_def correctedTokens_def tokenCounts_def Let_def max_def
        split: if_splits)

text \<open>
  Claim C2, as amended: for every streamed record in which \<open>prompt_eval_count\<close> and
  \<open>eval_count\<close> are both present and \<open>eval_count\<close> is not zero, the update of the counters
  sets \<open>completionTokens = evalCount\<close> and applies the prompt-token correction: if
  \<open>promptEvalCount \<ge> completionTokens\<close> then \<open>promptTokens = max(0, promptEvalCount -
  completionTokens)\<close> and \<open>totalTokens = promptEvalCount\<close>, otherwise \<open>promptTokens =
  max(0, promptEvalCount)\<close> and \<open>totalTokens = promptTokens + completionTokens\<close>. The
  report passed to \<open>onProgress\<close> for the record carries these counts, and so does the
  record returned when the line is the last of a body that was read without failure. The
  update is guarded by the truthiness of \<open>eval_count\<close>, so a record with \<open>eval_count = 0\<close>
  leaves the counters as they were.
\<close>

theorem prompt_token_correction:
  assumes "eval_count d = Some (Fin ec)" and "ec \<noteq> 0"
    and "prompt_eval_count d = Some (Fin pec)"
    and "list_all (\<lambda>e. \<not> isReadFailure e) es"
  shows "(v_promptTokens (processLine cfg t0 now d s), v_completionTokens (processLine cfg t0 now d s),
          v_totalTokens (processLine cfg t0 now d s)) = correctedTokens pec ec
       \<and> tokenCounts (reported (last (calls (processLine cfg t0 now d s)))) = correctedTokens pec ec
       \<and> \<not> isl (snd (generateCompletion cfg prompt t0
              (HttpResponse True status statusText (es @ [Line now (Parsed d)])) t1))
       \<and> tokenCounts (projr (snd (generateCompletion cfg prompt t0
              (HttpResponse True status statusText (es @ [Line now (Parsed d)])) t1)))
           = correctedTokens pec ec"
proof -
  obtain s' where s': "consume cfg t0 es (init_vars t0) = (s', None)"
    using consume_delivered [OF assms(4), of cfg t0 "init_vars t0"]
    by (cases "consume cfg t0 es (init_vars t0)") auto
  have run: "consume cfg t0 (es @ [Line now (Parsed d)]) (init_vars t0)
      = (processLine cfg t0 now d s', None)"
    by (simp add: consume_append s')
  have fin: "tokenCounts (finalMetrics cfg t0 t1 (processLine cfg t0 now d s')) = correctedTokens pec ec"
    by (rule finalMetrics_tokens) (rule processLine_tokens(1) [OF assms(1-3)])
  show ?thesis
    using processLine_tokens [OF assms(1-3), of cfg t0 now s] fin
    by (simp add: generateCompletion_def run Let_def)
qed

text \<open>The two examples of the claim: raw counts 5 and 8 give 5, 8 and 13; raw counts 20
  and 8 give 12, 8 and 20.\<close>

theorem prompt_token_correction_witness:
  "tokenCounts (projr (snd (generateCompletion demoConfig ''p'' 0
      (HttpResponse True 200 ''OK''
         ([] @ [Line 1000 (Parsed (statsRecord (Some (Fin 5)) (Some (Fin 8)) None True ''x''))])) 1001)))
     = (Fin 5, Fin 8, Fin 13)
   \<and> tokenCounts (projr (snd (generateCompletion demoConfig ''p'' 0
      (HttpResponse True 200 ''OK''
         ([] @ [Line 1000 (Parsed (statsRecord (Some (Fin 20)) (Some (Fin 8)) None True ''x''))])) 1001)))
     = (Fin 12, Fin 8, Fin 20)"
  using prompt_token_correction [of "statsRecord (Some (Fin 5)) (Some (Fin 8)) None True ''x''" 8 5 "[]"
          demoConfig 0 1000 "init_vars 0" "''p''" 200 "''OK''" 1001]
        prompt_token_correction [of "statsRecord (Some (Fin 20)) (Some (Fin 8)) None True ''x''" 8 20 "[]"
          demoConfig 0 1000 "init_vars 0" "''p''" 200 "''OK''" 1001]
  by (simp add: statsRecord_def correctedTokens_def)

text \<open>The claim as stated fails for a record with \<open>prompt_eval_count = 5\<close> and
  \<open>eval_count = 0\<close>: the correction would give 5 prompt tokens and a total of 5, the run
  returns 0 for both.\<close>

theorem zero_eval_count_counterexample:
  "\<not> isl (snd zeroEvalRun)
   \<and> tokenCounts (projr (snd zeroEvalRun)) = (Fin 0, Fin 0, Fin 0)
   \<and> correctedTokens 5 0 = (Fin 5, Fin 0, Fin 5)
   \<and> tokenCounts (projr (snd zeroEvalRun)) \<noteq> correctedTokens 5 0"
  by (simp add: zeroEvalRun_def gen_defs tokenCounts_def correctedTokens_def)

lemma zero_rate: "(if isFinite (jsdiv (Fin 0) x) then jsdiv (Fin 0) x else Fin 0) = Fin 0"
  by (cases x) auto

lemma processLine_quiet:
  assumes "\<not> truthyOpt (eval_count d)"
  shows "v_completionTokens (processLine cfg t0 now d s) = v_completionTokens s"
    and "v_promptTokens (processLine cfg t0 now d s) = v_promptTokens s"
    and "calls (processLine cfg t0 now d s) = calls s"
  using assms by (simp_all add: processLine_def Let_def)

lemma consume_quiet:
  "list_all quiet es \<Longrightarrow>
     snd (consume cfg t0 es s) = None
     \<and> v_completionTokens (fst (consume cfg t0 es s)) = v_completionTokens s
     \<and> v_promptTokens (fst (consume cfg t0 es s)) = v_promptTokens s
     \<and> calls (fst (consume cfg t0 es s)) = calls s"
proof (induction es arbitrary: s)
  case Nil
  then show ?case by simp
next
  case (Cons e es)
  show ?case
  proof (cases e)
    case (Line now l)
    show ?thesis
    proof (cases l)
      case Malformed
      with Line Cons show ?thesis by simp
    next
      case (Parsed d)
      with Line Cons.prems have q: "\<not> truthyOpt (eval_count d)" and r: "list_all quiet es"
        by simp_all
      show ?thesis
        using Cons.IH [OF r, of "processLine cfg t0 now d s"] processLine_quiet [OF q, of cfg t0 now s]
        by (simp add: Line Parsed)
    qed
  next
    case (ReadFailure msg)
    with Cons.prems show ?thesis by simp
  qed
qed

lemma finalMetrics_zero:
  assumes "v_completionTokens s = Fin 0" "v_promptTokens s = Fin 0"
  shows "completionTokens (finalMetrics cfg t0 t1 s) = Fin 0"
    and "promptTokens (finalMetrics cfg t0 t1 s) = Fin 0"
    and "totalTokens (finalMetrics cfg t0 t1 s) = Fin 0"
    and "tokensPerSecond (finalMetrics cfg t0 t1 s) = Fin 0"
  using assms by (simp_all add: finalMetrics_def Let_def zero_rate)

text \<open>
  Claim C6, as amended: for every generation whose body is read without failure and in
  which no streamed record has a truthy \<open>eval_count\<close> (it is absent, or zero, in every
  record), \<open>generateCompletion\<close> makes no estimate from the length of the generated text
  or of the prompt: it reports progress twice, at the start and at the end, and the record
  it returns has \<open>completionTokens = 0\<close>, \<open>promptTokens = 0\<close>, \<open>totalTokens = 0\<close> and
  \<open>tokensPerSecond = 0\<close>; no exception is raised and no value is \<open>NaN\<close>.
\<close>

theorem no_eval_count_no_estimate:
  assumes "list_all quiet body"
  shows "\<exists>m. generateCompletion cfg prompt t0 (HttpResponse True status statusText body) t1 =
          ([\<lparr>instant = t0, fraction = Fin (1 / 10), reported = zero_metrics\<rparr>,
            \<lparr>instant = t1, fraction = Fin 1, reported = m\<rparr>], Inr m)
        \<and> completionTokens m = Fin 0 \<and> promptTokens m = Fin 0 \<and> totalTokens m = Fin 0
        \<and> tokensPerSecond m = Fin 0"
proof -
  obtain s e where c: "consume cfg t0 body (init_vars t0) = (s, e)"
    by (cases "consume cfg t0 body (init_vars t0)") auto
  have q: "e = None" "v_completionTokens s = Fin 0" "v_promptTokens s = Fin 0"
      "calls s = calls (init_vars t0)"
    using consume_quiet [OF assms, of cfg t0 "init_vars t0", unfolded c]
    by (simp_all add: init_vars_def)
  have g: "generateCompletion cfg prompt t0 (HttpResponse True status statusText body) t1 =
      (calls s @ [\<lparr>instant = t1, fraction = Fin 1, reported = finalMetrics cfg t0 t1 s\<rparr>],
       Inr (finalMetrics cfg t0 t1 s))"
    unfolding generateCompletion_def by (simp add: c q(1) Let_def)
  show ?thesis
    unfolding g using finalMetrics_zero [OF q(2,3), of cfg t0 t1]
    by (simp add: q(4) init_vars_def)
qed

theorem no_eval_count_no_estimate_witness:
  "list_all quiet [Line 1000 (Parsed (statsRecord None None None False ''abcd'')),
         Line 1010 (Parsed (statsRecord None None None True ''efgh''))]
   \<and> length (fst silentRun) = 2
   \<and> completionTokens (projr (snd silentRun)) = Fin 0
   \<and> totalTokens (projr (snd silentRun)) = Fin 0
   \<and> tokensPerSecond (projr (snd silentRun)) = Fin 0"
proof -
  have h: "list_all quiet [Line 1000 (Parsed (statsRecord None None None False ''abcd'')),
         Line 1010 (Parsed (statsRecord None None None True ''efgh''))]"
    by (simp add: statsRecord_def truthyOpt_def)
  show ?thesis
    unfolding silentRun_def
    using h no_eval_count_no_estimate [OF h, of demoConfig "''hello world!''" 0 200 "''OK''" 1011]
    by auto
qed

text \<open>The claim as stated fails on a generation that streams \<open>abcd\<close> and \<open>efgh\<close> for
  the prompt \<open>hello world!\<close> without any \<open>eval_count\<close>: the estimates would be 2
  completion tokens and 3 prompt tokens, the run returns 0 for both.\<close>

theorem no_estimate_counterexample:
  "\<not> isl (snd silentRun)
   \<and> estimateTokenCount ''abcdefgh'' = 2
   \<and> estimateTokenCount ''hello world!'' = 3
   \<and> completionTokens (projr (snd silentRun)) = Fin 0
   \<and> promptTokens (projr (snd silentRun)) = Fin 0
   \<and> completionTokens (projr (snd silentRun)) \<noteq> Fin (real_of_int (estimateTokenCount ''abcdefgh''))
   \<and> promptTokens (projr (snd silentRun)) \<noteq> Fin (real_of_int (estimateTokenCount ''hello world!''))"
  by (simp add: silentRun_def gen_defs estimateTokenCount_def)

lemma processLine_calls:
  "map instant (calls (processLine cfg t0 now d s)) =
     map instant (calls s) @ (if truthyOpt (eval_count d) then [now] else [])"
  by (simp add: processLine_def Let_def)

lemma consume_instants:
  "list_all (\<lambda>e. \<not> isReadFailure e) es \<Longrightarrow>
     map instant (calls (fst (consume cfg t0 es s))) =
       map instant (calls s) @ map eventTime (filter reports es)"
proof (induction es arbitrary: s)
  case Nil
  then show ?case by simp
next
  case (Cons e es)
  show ?case
  proof (cases e)
    case (Line now l)
    with Cons.prems have r: "list_all (\<lambda>e. \<not> isReadFailure e) es" by simp
    show ?thesis
    proof (cases l)
      case Malformed
      with Line Cons.IH [OF r] show ?thesis by simp
    next
      case (Parsed d)
      show ?thesis
        using Cons.IH [OF r, of "processLine cfg t0 now d s"]
        by (simp add: Line Parsed processLine_calls)
    qed
  next
    case (ReadFailure msg)
    with Cons.prems show ?thesis by simp
  qed
qed

lemma consume_keeps_first:
  "calls s \<noteq> [] \<Longrightarrow> calls (fst (consume cfg t0 es s)) \<noteq> []
     \<and> hd (calls (fst (consume cfg t0 es s))) = hd (calls s)"
proof (induction cfg t0 es s rule: consume.induct)
  case (3 cfg startTime now d es s)
  have "calls (processLine cfg startTime now d s) \<noteq> []"
       "hd (calls (processLine cfg startTime now d s)) = hd (calls s)"
    using 3(2) by (simp_all add: processLine_def Let_def)
  with 3(1) show ?case by simp
qed simp_all

lemma progressCallback_throttled: "throttled th \<Longrightarrow> throttled (progressCallback th c)"
  by (auto simp add: throttled_def progressCallback_def Let_def successively_append_iff)

lemma foldl_throttled: "throttled th \<Longrightarrow> throttled (foldl progressCallback th cs)"
  by (induction cs arbitrary: th) (simp_all add: progressCallback_throttled)

lemma appliedReports_gaps:
  "successively (\<lambda>a b. 50 < instant b - instant a) (appliedReports cs)"
  using foldl_throttled [of throttle_init cs]
  by (simp add: appliedReports_def throttled_def throttle_init_def)

lemma appliedReports_early: "instant c \<le> 50 \<Longrightarrow> appliedReports (c # cs) = appliedReports cs"
  by (simp add: appliedReports_def progressCallback_def throttle_init_def)

text \<open>
  Claim C4, as amended: \<open>generateCompletion\<close> does not limit the rate of its reports.
  On a body read without failure it invokes \<open>onProgress\<close> once at the start (fraction
  0.1), once for every parsed line with a truthy \<open>eval_count\<close>, at the moment the line is
  processed, and once at the end (fraction 1); the first and the final report are always
  made. The limit is in the callback that the dashboard passes: it applies a report to the
  progress state only when more than 50 ms have passed since the report it applied last
  (since clock reading 0 for the first), so any two reports applied in succession are more
  than 50 ms apart; this gate holds for the first and the final report as well, and a
  first report made at a clock reading of at most 50 is not applied.
\<close>

theorem reports_not_rate_limited_callback_is:
  assumes "list_all (\<lambda>e. \<not> isReadFailure e) body"
  shows "map instant (fst (generateCompletion cfg prompt t0
            (HttpResponse True status statusText body) t1))
           = t0 # map eventTime (filter reports body) @ [t1]
       \<and> fraction (hd (fst (generateCompletion cfg prompt t0
            (HttpResponse True status statusText body) t1))) = Fin (1 / 10)
       \<and> fraction (last (fst (generateCompletion cfg prompt t0
            (HttpResponse True status statusText body) t1))) = Fin 1
       \<and> successively (\<lambda>a b. 50 < instant b - instant a) (appliedReports cs)
       \<and> (instant c \<le> 50 \<longrightarrow> appliedReports (c # cs) = appliedReports cs)"
proof -
  obtain s e where c: "consume cfg t0 body (init_vars t0) = (s, e)"
    by (cases "consume cfg t0 body (init_vars t0)") auto
  have e: "e = None"
    using consume_delivered [OF assms, of cfg t0 "init_vars t0"] by (simp add: c)
  have i: "map instant (calls s) = t0 # map eventTime (filter reports body)"
    using consume_instants [OF assms, of cfg t0 "init_vars t0", unfolded c]
    by (simp add: init_vars_def)
  have h: "calls s \<noteq> []" "hd (calls s) = hd (calls (init_vars t0))"
    using consume_keeps_first [of "init_vars t0" cfg t0 body, unfolded c]
    by (simp_all add: init_vars_def)
  have g: "fst (generateCompletion cfg prompt t0 (HttpResponse True status statusText body) t1) =
      calls s @ [\<lparr>instant = t1, fraction = Fin 1, reported = finalMetrics cfg t0 t1 s\<rparr>]"
    unfolding generateCompletion_def by (simp add: c e Let_def)
  show ?thesis
    unfolding g using i h appliedReports_gaps [of cs] appliedReports_early [of c cs]
    by (simp add: init_vars_def)
qed

text \<open>On the run with two reporting lines at 1000 and 1001: four reports are made, and
  of these the callback applies the one at 1000 alone; the first report, made at clock
  reading 0, is not applied.\<close>

theorem reports_not_rate_limited_callback_is_witness:
  "list_all (\<lambda>e. \<not> isReadFailure e)
     [Line 1000 (Parsed (statsRecord (Some (Fin 20)) (Some (Fin 1)) None False ''a'')),
      Line 1001 (Parsed (statsRecord (Some (Fin 20)) (Some (Fin 2)) None True ''b''))]
   \<and> map instant (fst burstRun) = [0, 1000, 1001, 1002]
   \<and> instant (hd (fst burstRun)) \<le> 50
   \<and> appliedReports (fst burstRun) = appliedReports (tl (fst burstRun))
   \<and> map instant (appliedReports (fst burstRun)) = [1000]"
proof -
  have h: "list_all (\<lambda>e. \<not> isReadFailure e)
     [Line 1000 (Parsed (statsRecord (Some (Fin 20)) (Some (Fin 1)) None False ''a'')),
      Line 1001 (Parsed (statsRecord (Some (Fin 20)) (Some (Fin 2)) None True ''b''))]"
    by simp
  have a: "map instant (fst burstRun) = [0, 1000, 1001, 1002]"
    unfolding burstRun_def
    using reports_not_rate_limited_callback_is [OF h, of demoConfig "''p''" 0 200 "''OK''" 1002 "[]"
      "\<lparr>instant = 0, fraction = Fin 0, reported = zero_metrics\<rparr>"]
    by (simp add: statsRecord_def truthyOpt_def)
  have b: "map instant (appliedReports (fst burstRun)) = [1000]"
     "instant (hd (fst burstRun)) \<le> 50"
     "appliedReports (fst burstRun) = appliedReports (tl (fst burstRun))"
    by (simp_all add: burstRun_def gen_defs appliedReports_def progressCallback_def throttle_init_def)
  from h a b show ?thesis by simp
qed

text \<open>The claim as stated fails on that run: its second and third report are neither the
  first nor the final one, and 1 ms lies between them.\<close>

theorem burst_counterexample:
  "length (fst burstRun) = 4
   \<and> fraction (fst burstRun ! 1) \<noteq> Fin (1 / 10) \<and> fraction (fst burstRun ! 2) \<noteq> Fin 1
   \<and> instant (fst burstRun ! 2) - instant (fst burstRun ! 1) = 1
   \<and> \<not> (50 \<le> instant (fst burstRun ! 2) - instant (fst burstRun ! 1))"
  by (simp add: burstRun_def gen_defs)

section \<open>Properties of the run orchestrator\<close>
lemma consume_outcome:
  "(snd (consume cfg t0 es s) = None) = list_all (\<lambda>e. \<not> isReadFailure e) es"
  by (induction cfg t0 es s rule: consume.induct) simp_all

lemma generateCompletion_outcome:
  "isl (snd (generateCompletion cfg prompt t0 f t1)) = (\<not> delivered f)"
proof (cases f)
  case (NetworkFailure msg)
  then show ?thesis by (simp add: generateCompletion_def)
next
  case (HttpResponse ok status statusText body)
  obtain s e where c: "consume cfg t0 body (init_vars t0) = (s, e)"
    by (cases "consume cfg t0 body (init_vars t0)") auto
  have "(e = None) = list_all (\<lambda>e. \<not> isReadFailure e) body"
    using consume_outcome [of cfg t0 body "init_vars t0"] by (simp add: c)
  then show ?thesis
    by (cases e) (simp_all add: generateCompletion_def HttpResponse c Let_def)
qed

lemma ollamaTask_settled:
  "wellSettled (id_cfg c) (delivered (fst (snd net)))
     (projr (snd (generateCompletion (config (chosenService svcs c)) prompt
        (fst net) (fst (snd net)) (snd (snd net)))))
     (snd (ollamaTask prompt net svcs c))"
proof -
  obtain t0 f t1 where net: "net = (t0, f, t1)" by (cases net) auto
  let ?service = "case findIndex (\<lambda>s. getModelInfo s (modelName c) = Some (modelName c)) svcs of
      None \<Rightarrow> newOllamaService c | Some i \<Rightarrow> svcs ! i"
  obtain cs out where g: "generateCompletion (config ?service) prompt t0 f t1 = (cs, out)"
    by (cases "generateCompletion (config ?service) prompt t0 f t1") auto
  have o: "isl out = (\<not> delivered f)"
    using generateCompletion_outcome [of "config ?service" prompt t0 f t1] by (simp add: g)
  show ?thesis
    using o
    by (cases out)
       (simp_all add: ollamaTask_def chosenService_def net g Let_def wellSettled_def
          zeroedMetrics_def error_metrics_def)
qed

lemma apiTask_settled:
  "wellSettled (id_api c) (\<not> isl (fst (snd run))) (projr (fst (snd run)))
     (snd (apiTask run svcs c))"
proof -
  obtain cs out t1 where run: "run = (cs, out, t1)" by (cases run) auto
  show ?thesis
    by (cases out)
       (simp_all add: apiTask_def run Let_def wellSettled_def zeroedMetrics_def error_metrics_def)
qed

lemma ollamaTasks_Cons:
  "fst (ollamaTasks prompt net i svcs (c # cs))
     = fst (ollamaTasks prompt net (Suc i) (fst (ollamaTask prompt (net i) svcs c)) cs)"
  "snd (ollamaTasks prompt net i svcs (c # cs))
     = snd (ollamaTask prompt (net i) svcs c)
         # snd (ollamaTasks prompt net (Suc i) (fst (ollamaTask prompt (net i) svcs c)) cs)"
  by (simp_all add: case_prod_beta Let_def)

lemma apiTasks_Cons:
  "snd (apiTasks run j svcs (c # cs))
     = snd (apiTask (run j) svcs c)
         # snd (apiTasks run (Suc j) (fst (apiTask (run j) svcs c)) cs)"
  by (simp add: case_prod_beta Let_def)

lemma ollamaTasks_settled:
  "length (snd (ollamaTasks prompt net i svcs cs)) = length cs
   \<and> (\<forall>k<length cs.
         wellSettled (id_cfg (cs ! k)) (delivered (fst (snd (net (i + k)))))
           (projr (snd (generateCompletion
              (config (chosenService (fst (ollamaTasks prompt net i svcs (take k cs))) (cs ! k)))
              prompt (fst (net (i + k))) (fst (snd (net (i + k)))) (snd (snd (net (i + k)))))))
           (snd (ollamaTasks prompt net i svcs cs) ! k))"
proof (induction cs arbitrary: i svcs)
  case Nil
  then show ?case by simp
next
  case (Cons c cs)
  let ?svcs1 = "fst (ollamaTask prompt (net i) svcs c)"
  have len: "length (snd (ollamaTasks prompt net i svcs (c # cs))) = length (c # cs)"
    using Cons.IH [of "Suc i" ?svcs1] by (simp add: ollamaTasks_Cons del: ollamaTasks.simps(2))
  have each: "wellSettled (id_cfg ((c # cs) ! k)) (delivered (fst (snd (net (i + k)))))
           (projr (snd (generateCompletion
              (config (chosenService (fst (ollamaTasks prompt net i svcs (take k (c # cs))))
                 ((c # cs) ! k)))
              prompt (fst (net (i + k))) (fst (snd (net (i + k)))) (snd (snd (net (i + k)))))))
           (snd (ollamaTasks prompt net i svcs (c # cs)) ! k)"
    if "k < length (c # cs)" for k
  proof (cases k)
    case 0
    then show ?thesis
      using ollamaTask_settled [of c "net i" svcs prompt] by (simp add: ollamaTasks_Cons del: ollamaTasks.simps(2))
  next
    case (Suc k')
    with that have "k' < length cs" by simp
    then show ?thesis
      using Cons.IH [of "Suc i" ?svcs1] by (simp add: Suc ollamaTasks_Cons del: ollamaTasks.simps(2))
  qed
  from len each show ?case by blast
qed

lemma apiTasks_settled:
  "length (snd (apiTasks run j svcs cs)) = length cs
   \<and> (\<forall>k<length cs.
         wellSettled (id_api (cs ! k)) (\<not> isl (fst (snd (run (j + k)))))
           (projr (fst (snd (run (j + k))))) (snd (apiTasks run j svcs cs) ! k))"
proof (induction cs arbitrary: j svcs)
  case Nil
  then show ?case by simp
next
  case (Cons c cs)
  let ?svcs1 = "fst (apiTask (run j) svcs c)"
  have len: "length (snd (apiTasks run j svcs (c # cs))) = length (c # cs)"
    using Cons.IH [of "Suc j" ?svcs1] by (simp add: apiTasks_Cons del: apiTasks.simps(2))
  have each: "wellSettled (id_api ((c # cs) ! k)) (\<not> isl (fst (snd (run (j + k)))))
           (projr (fst (snd (run (j + k))))) (snd (apiTasks run j svcs (c # cs)) ! k)"
    if "k < length (c # cs)" for k
  proof (cases k)
    case 0
    then show ?thesis
      using apiTask_settled [of c "run j" svcs] by (simp add: apiTasks_Cons del: apiTasks.simps(2))
  next
    case (Suc k')
    with that have "k' < length cs" by simp
    then show ?thesis
      using Cons.IH [of "Suc j" ?svcs1] by (simp add: Suc apiTasks_Cons del: apiTasks.simps(2))
  qed
  from len each show ?case by blast
qed

lemma promiseAll_fulfilled:
  "\<forall>p\<in>set ps. \<not> isl p \<Longrightarrow> promiseAll ps = Inr (map projr ps)"
proof (induction ps)
  case Nil
  then show ?case by simp
next
  case (Cons p ps)
  then show ?case by (cases p) simp_all
qed

lemma length_map_filter_perm:
  assumes "mset order = mset [0..<n]"
  shows "length (List.map_filter f order) = length (filter (\<lambda>i. f i \<noteq> None) [0..<n])"
proof -
  let ?P = "\<lambda>i. f i \<noteq> None"
  have "length (List.map_filter f order) = length (filter ?P order)"
    by (simp add: map_filter_def)
  also have "\<dots> = size (mset (filter ?P order))"
    by (simp only: size_mset)
  also have "\<dots> = size (filter_mset ?P (mset order))"
    by (simp only: mset_filter)
  also have "\<dots> = size (filter_mset ?P (mset [0..<n]))"
    by (simp only: assms)
  also have "\<dots> = size (mset (filter ?P [0..<n]))"
    by (simp only: mset_filter)
  also have "\<dots> = length (filter ?P [0..<n])"
    by (simp only: size_mset)
  finally show ?thesis .
qed

lemma filter_upt_nth:
  "length (filter (\<lambda>i. P (xs ! i)) [0..<length xs]) = length (filter P xs)"
proof -
  have "filter P xs = filter P (map (\<lambda>i. xs ! i) [0..<length xs])"
    by (simp add: map_nth)
  then show ?thesis by (simp add: filter_map comp_def)
qed


lemma wellSettled_sound:
  "wellSettled ident ok m r \<Longrightarrow>
     \<not> isl (settled r) \<and> (pushed r = None) = (error (projr (settled r)) = None)
     \<and> (error (projr (settled r)) = None \<or> zeroedMetrics (metrics (projr (settled r))))"
  by (auto simp add: wellSettled_def split: if_splits)

lemma compareModels_unfold:
  assumes ot: "ollamaTasks prompt (ollamaNet env) 0 (services_ollama svc) (ollama (configs svc)) = (osvcs, otasks)"
    and at: "apiTasks (apiNet env) 0 (services_api svc) (api (configs svc)) = (asvcs, atasks)"
    and ok: "\<forall>t\<in>set (otasks @ atasks). \<not> isl (settled t)"
  shows "snd (compareModels env svc prompt) =
     Inr \<lparr>prompt_res = prompt, timestamp_res = stamp env,
          responses = map (\<lambda>t. projr (settled t)) (otasks @ atasks),
          totalTime = t_end env - t_start env,
          errors = (if length (pushedErrors (settleOrder env) (otasks @ atasks)) > 0
                    then Some (pushedErrors (settleOrder env) (otasks @ atasks)) else None)\<rparr>"
proof -
  have o: "promiseAll (map settled otasks) = Inr (map projr (map settled otasks))"
    using ok by (intro promiseAll_fulfilled) auto
  have a: "promiseAll (map settled atasks) = Inr (map projr (map settled atasks))"
    using ok by (intro promiseAll_fulfilled) auto
  show ?thesis
    by (simp add: compareModels_def getActiveConfigs_def ot at o a Let_def comp_def)
qed

text \<open>
  Claim C3: for every prompt and every stored list of configurations, \<open>compareModels\<close>
  resolves and never rejects. The responses are one per launched configuration, in the
  order of the configurations; a response carries an error exactly when its own run
  failed (for an Ollama run: the fetch failed, the status was not OK or a read of the body
  failed), whatever the sibling runs do; a response with an error has zeroed metrics
  (\<open>responseTime\<close>, \<open>tokensPerSecond\<close>, \<open>totalTokens\<close>, \<open>promptTokens\<close> and
  \<open>completionTokens\<close> all 0); a response without an error has the metrics that its own
  run returned; and one message is on \<open>errors\<close> for every response with an error. The
  order in which the tasks finish is any permutation of the tasks.
\<close>

theorem compareModels_always_resolves:
  assumes "mset (settleOrder env)
             = mset [0..<length (ollama (configs svc)) + length (api (configs svc))]"
  shows "\<exists>res. snd (compareModels env svc prompt) = Inr res
     \<and> map id_resp (responses res)
         = map id_cfg (ollama (configs svc)) @ map id_api (api (configs svc))
     \<and> (\<forall>r\<in>set (responses res). error r = None \<or> zeroedMetrics (metrics r))
     \<and> (case errors res of None \<Rightarrow> 0 | Some es \<Rightarrow> length es)
         = length (filter (\<lambda>r. error r \<noteq> None) (responses res))
     \<and> (\<forall>i<length (ollama (configs svc)).
           (error (responses res ! i) = None) = delivered (fst (snd (ollamaNet env i))))
     \<and> (\<forall>j<length (api (configs svc)).
           (error (responses res ! (length (ollama (configs svc)) + j)) = None)
             = (\<not> isl (fst (snd (apiNet env j)))))
     \<and> (\<forall>i<length (ollama (configs svc)). delivered (fst (snd (ollamaNet env i))) \<longrightarrow>
           metrics (responses res ! i) =
             projr (snd (generateCompletion
               (config (chosenService
                  (fst (ollamaTasks prompt (ollamaNet env) 0 (services_ollama svc)
                         (take i (ollama (configs svc)))))
                  (ollama (configs svc) ! i)))
               prompt (fst (ollamaNet env i)) (fst (snd (ollamaNet env i)))
               (snd (snd (ollamaNet env i))))))
     \<and> (\<forall>j<length (api (configs svc)). \<not> isl (fst (snd (apiNet env j))) \<longrightarrow>
           metrics (responses res ! (length (ollama (configs svc)) + j))
             = projr (fst (snd (apiNet env j))))"
proof -
  let ?oc = "ollama (configs svc)" and ?ac = "api (configs svc)"
  let ?om = "\<lambda>k. projr (snd (generateCompletion
               (config (chosenService
                  (fst (ollamaTasks prompt (ollamaNet env) 0 (services_ollama svc) (take k ?oc)))
                  (?oc ! k)))
               prompt (fst (ollamaNet env k)) (fst (snd (ollamaNet env k)))
               (snd (snd (ollamaNet env k)))))"
  obtain osvcs otasks where
    ot: "ollamaTasks prompt (ollamaNet env) 0 (services_ollama svc) ?oc = (osvcs, otasks)"
    by (cases "ollamaTasks prompt (ollamaNet env) 0 (services_ollama svc) ?oc") auto
  obtain asvcs atasks where
    at: "apiTasks (apiNet env) 0 (services_api svc) ?ac = (asvcs, atasks)"
    by (cases "apiTasks (apiNet env) 0 (services_api svc) ?ac") auto
  have O: "length otasks = length ?oc"
    "\<And>k. k < length ?oc \<Longrightarrow>
       wellSettled (id_cfg (?oc ! k)) (delivered (fst (snd (ollamaNet env k)))) (?om k) (otasks ! k)"
    using ollamaTasks_settled [of prompt "ollamaNet env" 0 "services_ollama svc" ?oc]
    by (simp_all add: ot)
  have A: "length atasks = length ?ac"
    "\<And>k. k < length ?ac \<Longrightarrow>
       wellSettled (id_api (?ac ! k)) (\<not> isl (fst (snd (apiNet env k))))
         (projr (fst (snd (apiNet env k)))) (atasks ! k)"
    using apiTasks_settled [of "apiNet env" 0 "services_api svc" ?ac]
    by (simp_all add: at)
  let ?tasks = "otasks @ atasks"
  let ?resp = "map (\<lambda>t. projr (settled t)) ?tasks"
  let ?errs = "pushedErrors (settleOrder env) ?tasks"
  have each: "\<not> isl (settled t) \<and> (pushed t = None) = (error (projr (settled t)) = None)
      \<and> (error (projr (settled t)) = None \<or> zeroedMetrics (metrics (projr (settled t))))"
    if "t \<in> set ?tasks" for t
  proof -
    from that consider k where "k < length otasks" "t = otasks ! k"
      | k where "k < length atasks" "t = atasks ! k"
      by (auto simp add: in_set_conv_nth)
    then show ?thesis
    proof cases
      case 1
      then show ?thesis using wellSettled_sound [OF O(2) [of k]] O(1) by simp
    next
      case 2
      then show ?thesis using wellSettled_sound [OF A(2) [of k]] A(1) by simp
    qed
  qed
  have res: "snd (compareModels env svc prompt) =
     Inr \<lparr>prompt_res = prompt, timestamp_res = stamp env, responses = ?resp,
          totalTime = t_end env - t_start env,
          errors = (if length ?errs > 0 then Some ?errs else None)\<rparr>"
    using each by (intro compareModels_unfold [OF ot at]) blast
  have ids: "map id_resp ?resp = map id_cfg ?oc @ map id_api ?ac"
  proof -
    have "map id_resp (map (\<lambda>t. projr (settled t)) otasks) = map id_cfg ?oc"
      using O by (intro nth_equalityI) (auto simp add: wellSettled_def)
    moreover have "map id_resp (map (\<lambda>t. projr (settled t)) atasks) = map id_api ?ac"
      using A by (intro nth_equalityI) (auto simp add: wellSettled_def)
    ultimately show ?thesis by simp
  qed
  have zeroed: "\<forall>r\<in>set ?resp. error r = None \<or> zeroedMetrics (metrics r)"
    using each by auto
  have count: "length ?errs = length (filter (\<lambda>r. error r \<noteq> None) ?resp)"
  proof -
    have n: "length ?tasks = length ?oc + length ?ac"
      using O(1) A(1) by simp
    have "length ?errs
        = length (filter (\<lambda>i. (if i < length ?tasks then pushed (?tasks ! i) else None) \<noteq> None)
            [0..<length ?tasks])"
      unfolding pushedErrors_def using assms n by (intro length_map_filter_perm) simp
    also have "\<dots> = length (filter (\<lambda>i. pushed (?tasks ! i) \<noteq> None) [0..<length ?tasks])"
      by (rule arg_cong [where f = length], rule filter_cong) auto
    also have "\<dots> = length (filter (\<lambda>t. pushed t \<noteq> None) ?tasks)"
      by (rule filter_upt_nth)
    also have "\<dots> = length (filter (\<lambda>t. error (projr (settled t)) \<noteq> None) ?tasks)"
      by (rule arg_cong [where f = length], rule filter_cong) (use each in auto)
    also have "\<dots> = length (filter (\<lambda>r. error r \<noteq> None) ?resp)"
      by (simp add: filter_map comp_def)
    finally show ?thesis .
  qed
  have oerr: "(error (?resp ! i) = None) = delivered (fst (snd (ollamaNet env i)))"
    if "i < length ?oc" for i
    using O(2) [OF that] that O(1) by (simp add: nth_append wellSettled_def)
  have aerr: "(error (?resp ! (length ?oc + j)) = None) = (\<not> isl (fst (snd (apiNet env j))))"
    if "j < length ?ac" for j
    using A(2) [OF that] that O(1) A(1) by (simp add: nth_append wellSettled_def)
  have omet: "metrics (?resp ! i) = ?om i"
    if "i < length ?oc" "delivered (fst (snd (ollamaNet env i)))" for i
    using O(2) [OF that(1)] that O(1) by (simp add: nth_append wellSettled_def)
  have amet: "metrics (?resp ! (length ?oc + j)) = projr (fst (snd (apiNet env j)))"
    if "j < length ?ac" "\<not> isl (fst (snd (apiNet env j)))" for j
    using A(2) [OF that(1)] that O(1) A(1) by (simp add: nth_append wellSettled_def)
  let ?R = "\<lparr>prompt_res = prompt, timestamp_res = stamp env, responses = ?resp,
          totalTime = t_end env - t_start env,
          errors = (if length ?errs > 0 then Some ?errs else None)\<rparr>"
  have r: "responses ?R = ?resp" by simp
  have e: "(case errors ?R of None \<Rightarrow> 0 | Some es \<Rightarrow> length es) = length ?errs" by simp
  show ?thesis
  proof (rule exI [of _ ?R], intro conjI)
    show "snd (compareModels env svc prompt) = Inr ?R" by (rule res)
    show "map id_resp (responses ?R) = map id_cfg ?oc @ map id_api ?ac"
      unfolding r by (rule ids)
    show "\<forall>r\<in>set (responses ?R). error r = None \<or> zeroedMetrics (metrics r)"
      unfolding r by (rule zeroed)
    show "(case errors ?R of None \<Rightarrow> 0 | Some es \<Rightarrow> length es)
        = length (filter (\<lambda>r. error r \<noteq> None) (responses ?R))"
      unfolding r e by (rule count)
    show "\<forall>i<length ?oc. (error (responses ?R ! i) = None) = delivered (fst (snd (ollamaNet env i)))"
      unfolding r using oerr by blast
    show "\<forall>j<length ?ac. (error (responses ?R ! (length ?oc + j)) = None)
             = (\<not> isl (fst (snd (apiNet env j))))"
      unfolding r using aerr by blast
    show "\<forall>i<length ?oc. delivered (fst (snd (ollamaNet env i))) \<longrightarrow>
            metrics (responses ?R ! i) = ?om i"
      unfolding r using omet by blast
    show "\<forall>j<length ?ac. \<not> isl (fst (snd (apiNet env j))) \<longrightarrow>
            metrics (responses ?R ! (length ?oc + j)) = projr (fst (snd (apiNet env j)))"
      unfolding r using amet by blast
  qed
qed

lemmas cmp_defs = compareModels_def getActiveConfigs_def updateConfigs_def ollamaTask_def
  pushedErrors_def newOllamaService_def emptyService_def twoModels_def secondConfig_def
  goodFetch_def error_metrics_def List.map_filter_def

text \<open>Two models, the first of which gets HTTP 500: two responses; the first has an
  error and 0 in each of the five metrics; the second has no error and the metrics of its
  own run (12 prompt, 8 completion and 20 total tokens at 8 tokens per second); one
  message is on \<open>errors\<close>.\<close>

theorem compareModels_always_resolves_witness:
  "mset (settleOrder partialFailure)
     = mset [0..<length (ollama (configs twoModels)) + length (api (configs twoModels))]
   \<and> \<not> delivered (fst (snd (ollamaNet partialFailure 0)))
   \<and> delivered (fst (snd (ollamaNet partialFailure 1)))
   \<and> \<not> isl (snd (compareModels partialFailure twoModels ''p''))
   \<and> map id_resp (responses partialFailureResult) = [''m1'', ''m2'']
   \<and> error (responses partialFailureResult ! 0) \<noteq> None
   \<and> responseTime (metrics (responses partialFailureResult ! 0)) = Fin 0
   \<and> tokensPerSecond (metrics (responses partialFailureResult ! 0)) = Fin 0
   \<and> totalTokens (metrics (responses partialFailureResult ! 0)) = Fin 0
   \<and> promptTokens (metrics (responses partialFailureResult ! 0)) = Fin 0
   \<and> completionTokens (metrics (responses partialFailureResult ! 0)) = Fin 0
   \<and> error (responses partialFailureResult ! 1) = None
   \<and> tokenCounts (metrics (responses partialFailureResult ! 1)) = (Fin 12, Fin 8, Fin 20)
   \<and> tokensPerSecond (metrics (responses partialFailureResult ! 1)) = Fin 8
   \<and> map_option length (errors partialFailureResult) = Some 1"
proof -
  have h: "mset (settleOrder partialFailure)
     = mset [0..<length (ollama (configs twoModels)) + length (api (configs twoModels))]"
    by (simp add: partialFailure_def twoModels_def updateConfigs_def upt_rec)
  have d: "\<not> delivered (fst (snd (ollamaNet partialFailure 0)))"
    "delivered (fst (snd (ollamaNet partialFailure 1)))"
    by (simp_all add: partialFailure_def goodFetch_def)
  have r: "snd (compareModels partialFailure twoModels ''p'') = Inr partialFailureResult"
    using compareModels_always_resolves [OF h, of "''p''"]
    by (auto simp add: partialFailureResult_def)
  have v: "map id_resp (responses partialFailureResult) = [''m1'', ''m2'']"
    "error (responses partialFailureResult ! 0) \<noteq> None"
    "responseTime (metrics (responses partialFailureResult ! 0)) = Fin 0"
    "tokensPerSecond (metrics (responses partialFailureResult ! 0)) = Fin 0"
    "totalTokens (metrics (responses partialFailureResult ! 0)) = Fin 0"
    "promptTokens (metrics (responses partialFailureResult ! 0)) = Fin 0"
    "completionTokens (metrics (responses partialFailureResult ! 0)) = Fin 0"
    "error (responses partialFailureResult ! 1) = None"
    "tokenCounts (metrics (responses partialFailureResult ! 1)) = (Fin 12, Fin 8, Fin 20)"
    "tokensPerSecond (metrics (responses partialFailureResult ! 1)) = Fin 8"
    "map_option length (errors partialFailureResult) = Some 1"
    by (simp_all add: partialFailureResult_def partialFailure_def cmp_defs gen_defs tokenCounts_def)
  from h d r v show ?thesis by simp
qed

text \<open>
  Claim C7: \<open>compareModels\<close> launches a run only for configurations whose \<open>enabled\<close>
  flag is true. The code does not: \<open>updateConfigs\<close> stores all configurations and filters
  by \<open>enabled\<close> only the services it creates, and \<open>getActiveConfigs\<close> returns the stored
  configurations unfiltered, so \<open>compareModels\<close> maps over a disabled configuration as
  well, creates a service for it, runs it and returns its response.
\<close>

theorem disabled_configuration_is_launched:
  "\<not> enabled (hd (ollama (getActiveConfigs oneDisabled)))
   \<and> services_ollama oneDisabled = []
   \<and> \<not> isl (snd (compareModels allGood oneDisabled ''p''))
   \<and> map id_resp (responses (projr (snd (compareModels allGood oneDisabled ''p'')))) = [''m1'']
   \<and> map error (responses (projr (snd (compareModels allGood oneDisabled ''p'')))) = [None]
   \<and> length (services_ollama (fst (compareModels allGood oneDisabled ''p''))) = 1"
  by (simp add: oneDisabled_def allGood_def cmp_defs gen_defs)

section \<open>Properties of the aggregator\<close>













text \<open>
  The listener of \<open>ComparisonDashboard.tsx\<close> itself appends without evicting; it is not
  among the steps of that dashboard, which never gets a \<open>model-progress\<close> event.
\<close>

lemma handleModelProgress_appends:
  assumes "jslt (Fin 0) (ev_progress ev)"
    and "find (\<lambda>m. id_model m = ev_modelId ev) (enabledModels st) = Some m"
    and "ev_metrics ev = Some mt"
  shows "performanceHistory (handleModelProgress date ev st) =
     performanceHistory st @
       [\<lparr>timestamp = date,
         vals = setProp (name_model m) (Num (tokensPerSecond mt))
                  (vals (createPerformanceDataPoint date st (results st)))\<rparr>]"
  using assms
  by (simp add: handleModelProgress_def Let_def createPerformanceDataPoint_def)



section \<open>Properties of the chart preprocessor\<close>

text \<open>
  Claim C10: for a buffer without points the chart preprocessor produces no output; for
  a buffer of exactly one point it produces exactly two points, the point itself and a
  copy 100 ms later, with the same values for every model. This holds for both charts and
  for every selection.
\<close>

theorem degenerate_buffers:
  "processedData selectedModels [] = []
   \<and> processedDataAdvanced smoothing selectedModels [] = []
   \<and> processedData selectedModels [p] = [p, p\<lparr>timestamp := timestamp p + 100\<rparr>]
   \<and> processedDataAdvanced smoothing selectedModels [p] = [p, p\<lparr>timestamp := timestamp p + 100\<rparr>]
   \<and> length (processedData selectedModels [p]) = 2
   \<and> timestamp (processedData selectedModels [p] ! 1) - timestamp (processedData selectedModels [p] ! 0) = 100
   \<and> vals (processedData selectedModels [p] ! 1) = vals (processedData selectedModels [p] ! 0)
   \<and> length (processedDataAdvanced smoothing selectedModels [p]) = 2
   \<and> timestamp (processedDataAdvanced smoothing selectedModels [p] ! 1)
       - timestamp (processedDataAdvanced smoothing selectedModels [p] ! 0) = 100
   \<and> vals (processedDataAdvanced smoothing selectedModels [p] ! 1)
       = vals (processedDataAdvanced smoothing selectedModels [p] ! 0)"
  by (simp add: processedData_def processedDataAdvanced_def singlePoint_def)

lemma cubicInterpolate_finite:
  "cubicInterpolate (Fin a) (Fin b) (Fin p) = Fin (a + (b - a) * (p * p * (3 - 2 * p)))"
  by (simp add: cubicInterpolate_def jssub_def Let_def)

lemma ease_bounds:
  fixes p :: real
  assumes "0 \<le> p" "p \<le> 1"
  shows "0 \<le> p * p * (3 - 2 * p)" and "p * p * (3 - 2 * p) \<le> 1"
proof -
  show "0 \<le> p * p * (3 - 2 * p)"
    using assms by (intro mult_nonneg_nonneg) simp_all
  have "1 - p * p * (3 - 2 * p) = (1 - p) * (1 - p) * (1 + 2 * p)"
    by (simp add: algebra_simps)
  moreover have "0 \<le> (1 - p) * (1 - p) * (1 + 2 * p)"
    using assms by (intro mult_nonneg_nonneg) simp_all
  ultimately show "p * p * (3 - 2 * p) \<le> 1" by linarith
qed

lemma convex_between:
  fixes a b t :: real
  assumes "0 \<le> t" "t \<le> 1"
  shows "min a b \<le> a + (b - a) * t" and "a + (b - a) * t \<le> max a b"
proof -
  have e: "a + (b - a) * t = (1 - t) * a + t * b"
    by (simp add: algebra_simps)
  have "(1 - t) * min a b \<le> (1 - t) * a" "t * min a b \<le> t * b"
       "(1 - t) * a \<le> (1 - t) * max a b" "t * b \<le> t * max a b"
    using assms by (intro mult_left_mono; simp)+
  then have "(1 - t) * min a b + t * min a b \<le> (1 - t) * a + t * b"
       "(1 - t) * a + t * b \<le> (1 - t) * max a b + t * max a b"
    by linarith+
  then show "min a b \<le> a + (b - a) * t" "a + (b - a) * t \<le> max a b"
    unfolding e by (simp_all add: algebra_simps)
qed

lemma map_of_map_filter_keyed:
  assumes "\<And>k kv. f k = Some kv \<Longrightarrow> fst kv = k"
  shows "map_of (List.map_filter f keys) k = (if k \<in> set keys then map_option snd (f k) else None)"
proof (induction keys)
  case Nil
  then show ?case by simp
next
  case (Cons x keys)
  show ?case
  proof (cases "f x")
    case None
    with Cons show ?thesis by auto
  next
    case (Some kv)
    with assms [of x kv] have "fst kv = x" by simp
    with Some Cons show ?thesis by (cases kv) auto
  qed
qed

lemma interpolatedEntry_key: "interpolatedEntry c n prog k = Some kv \<Longrightarrow> fst kv = k"
  by (auto simp add: interpolatedEntry_def split: option.splits jsval.splits)

lemma interpolatedPoint_value:
  assumes "key \<in> set keys"
    and "map_of (vals currentPoint) key = Some (Num (Fin a))"
    and "map_of (vals nextPoint) key = Some (Num (Fin b))"
  shows "map_of (vals (interpolatedPoint keys currentPoint nextPoint steps step)) key
     = Some (Num (Fin (a + (b - a) *
          ((real step / real_of_int steps) * (real step / real_of_int steps)
             * (3 - 2 * (real step / real_of_int steps))))))"
proof -
  let ?prog = "real step / real_of_int steps"
  have "map_of (vals (interpolatedPoint keys currentPoint nextPoint steps step)) key
      = map_option snd (interpolatedEntry currentPoint nextPoint ?prog key)"
    using assms(1)
    by (simp add: interpolatedPoint_def Let_def
          map_of_map_filter_keyed [of "interpolatedEntry currentPoint nextPoint ?prog",
            OF interpolatedEntry_key])
  also have "\<dots> = Some (Num (cubicInterpolate (Fin a) (Fin b) (Fin ?prog)))"
    using assms(2,3) by (simp add: interpolatedEntry_def)
  finally show ?thesis by (simp only: cubicInterpolate_finite)
qed

lemma gapPoints_small:
  "timestamp nextPoint - timestamp currentPoint \<le> 2 * timeStep \<Longrightarrow>
     gapPoints keys currentPoint nextPoint = []"
  by (simp add: gapPoints_def Let_def)

lemma gapPoints_length: "length (gapPoints keys currentPoint nextPoint) \<le> 19"
proof -
  have "nat (min d 20) - Suc 0 \<le> 19" for d :: int
    by (cases "d \<le> 20") (simp_all add: min_def)
  then show ?thesis by (simp add: gapPoints_def Let_def)
qed

lemma gapPoints_member:
  assumes "q \<in> set (gapPoints keys currentPoint nextPoint)"
  obtains steps step where "0 < step" "int step < steps"
    and "q = interpolatedPoint keys currentPoint nextPoint steps step"
proof -
  let ?steps = "min ((timestamp nextPoint - timestamp currentPoint) div timeStep) 20"
  from assms obtain step where "step \<in> set [1..<nat ?steps]"
      "q = interpolatedPoint keys currentPoint nextPoint ?steps step"
    by (auto simp add: gapPoints_def Let_def split: if_splits)
  moreover from this have "0 < step" "int step < ?steps" by auto
  ultimately show thesis using that by blast
qed

lemma interpolateAll_set:
  "set (interpolateAll keys ps) =
     set ps \<union> (\<Union>i\<in>{i. Suc i < length ps}. set (gapPoints keys (ps ! i) (ps ! Suc i)))"
proof (induction keys ps rule: interpolateAll.induct)
  case (3 keys p q ps)
  have "{i. Suc i < length (p # q # ps)} = insert 0 (Suc ` {i. Suc i < length (q # ps)})"
    by (auto simp add: image_iff) (metis less_Suc_eq_0_disj)
  then show ?case using 3 by auto
qed simp_all

lemma addKey_set: "set (addKey k ks) = insert k (set ks)"
  by (auto simp add: addKey_def)

lemma addKeys_set:
  "set (foldl (\<lambda>ks key. if admitted sel key then addKey key ks else ks) ks0 xs)
     = set ks0 \<union> {k \<in> set xs. admitted sel k}"
  by (induction xs arbitrary: ks0) (auto simp add: addKey_set)

lemma allKeys_fold_set:
  "set (foldl (\<lambda>ks point.
          foldl (\<lambda>ks key. if admitted sel key then addKey key ks else ks) ks (map fst (vals point)))
        ks0 ps)
     = set ks0 \<union> {k. admitted sel k \<and> (\<exists>p\<in>set ps. k \<in> fst ` set (vals p))}"
proof (induction ps arbitrary: ks0)
  case Nil
  then show ?case by simp
next
  case (Cons p ps)
  show ?case
    by (simp only: foldl_Cons Cons.IH addKeys_set) auto
qed

lemma allModelKeys_set:
  "set (allModelKeys sel ps) = {k. admitted sel k \<and> (\<exists>p\<in>set ps. k \<in> fst ` set (vals p))}"
  by (simp add: allModelKeys_def allKeys_fold_set)

lemma normalizePoint_keys: "map fst (vals (normalizePoint keys p)) = keys"
  by (simp add: normalizePoint_def comp_def)

lemma map_of_keyed: "map_of (map (\<lambda>k. (k, g k)) keys) k = (if k \<in> set keys then Some (g k) else None)"
  by (induction keys) auto

lemma normalizePoint_value:
  "map_of (vals (normalizePoint keys p)) k =
     (if k \<in> set keys then Some (case map_of (vals p) k of Some v \<Rightarrow> v | None \<Rightarrow> Null) else None)"
  by (simp add: normalizePoint_def map_of_keyed)

lemma map_filter_all_keys:
  "(\<And>k. k \<in> set keys \<Longrightarrow> \<exists>v. f k = Some (k, v)) \<Longrightarrow> map fst (List.map_filter f keys) = keys"
proof (induction keys)
  case Nil
  then show ?case by simp
next
  case (Cons x keys)
  from Cons.prems [of x] obtain v where "f x = Some (x, v)" by auto
  moreover have "map fst (List.map_filter f keys) = keys"
    using Cons.prems by (intro Cons.IH) simp
  ultimately show ?case by simp
qed

lemma interpolatedPoint_keys:
  "map fst (vals (interpolatedPoint keys (normalizePoint keys p) nextPoint steps step)) = keys"
proof -
  have "\<exists>v. interpolatedEntry (normalizePoint keys p) nextPoint prog k = Some (k, v)"
    if "k \<in> set keys" for k prog
    using that
    by (auto simp add: interpolatedEntry_def normalizePoint_value split: option.splits jsval.splits)
  then show ?thesis
    by (simp add: interpolatedPoint_def Let_def map_filter_all_keys)
qed

lemma interpolateAll_keys:
  assumes "q \<in> set (interpolateAll keys (map (normalizePoint keys) ps))"
  shows "map fst (vals q) = keys"
proof -
  let ?nd = "map (normalizePoint keys) ps"
  from assms consider "q \<in> set ?nd"
    | i where "Suc i < length ?nd" "q \<in> set (gapPoints keys (?nd ! i) (?nd ! Suc i))"
    unfolding interpolateAll_set by auto
  then show ?thesis
  proof cases
    case 1
    then show ?thesis by (auto simp add: normalizePoint_keys)
  next
    case 2
    from 2(2) obtain steps step where
      "q = interpolatedPoint keys (?nd ! i) (?nd ! Suc i) steps step"
      by (rule gapPoints_member)
    moreover have "?nd ! i = normalizePoint keys (ps ! i)"
      using 2(1) by simp
    ultimately show ?thesis by (simp only: interpolatedPoint_keys)
  qed
qed

lemma smoothedPoint_keys: "map fst (vals (smoothedPoint keys nd w i)) = keys"
  by (simp add: smoothedPoint_def comp_def Let_def)

lemma interpolatedPoint_carry:
  assumes "key \<in> set keys"
    and "\<forall>a b. map_of (vals currentPoint) key \<noteq> Some (Num a)
           \<or> map_of (vals nextPoint) key \<noteq> Some (Num b)"
  shows "map_of (vals (interpolatedPoint keys currentPoint nextPoint steps step)) key
     = map_of (vals currentPoint) key"
proof -
  let ?prog = "real step / real_of_int steps"
  have "map_of (vals (interpolatedPoint keys currentPoint nextPoint steps step)) key
      = map_option snd (interpolatedEntry currentPoint nextPoint ?prog key)"
    using assms(1)
    by (simp add: interpolatedPoint_def Let_def
          map_of_map_filter_keyed [of "interpolatedEntry currentPoint nextPoint ?prog",
            OF interpolatedEntry_key])
  also have "\<dots> = map_of (vals currentPoint) key"
    using assms(2) by (auto simp add: interpolatedEntry_def split: option.splits jsval.splits)
  finally show ?thesis .
qed

lemma gapPoints_nth:
  assumes "k < length (gapPoints keys currentPoint nextPoint)"
  shows "100 < timestamp nextPoint - timestamp currentPoint"
    and "int (Suc k) < min ((timestamp nextPoint - timestamp currentPoint) div 50) 20"
    and "gapPoints keys currentPoint nextPoint ! k =
           interpolatedPoint keys currentPoint nextPoint
             (min ((timestamp nextPoint - timestamp currentPoint) div 50) 20) (Suc k)"
proof -
  let ?d = "timestamp nextPoint - timestamp currentPoint"
  let ?steps = "min (?d div 50) 20"
  show gap: "100 < ?d"
    using assms by (auto simp add: gapPoints_def Let_def timeStep_def split: if_splits)
  then have g: "gapPoints keys currentPoint nextPoint =
      map (interpolatedPoint keys currentPoint nextPoint ?steps) [1..<nat ?steps]"
    by (simp add: gapPoints_def Let_def timeStep_def)
  from assms have k: "k < nat ?steps - 1" by (simp add: g)
  then show "int (Suc k) < ?steps" by linarith
  from k show "gapPoints keys currentPoint nextPoint ! k =
           interpolatedPoint keys currentPoint nextPoint ?steps (Suc k)"
    unfolding g by (simp add: nth_map)
qed

lemma gapPoints_count:
  "100 < timestamp nextPoint - timestamp currentPoint \<Longrightarrow>
     length (gapPoints keys currentPoint nextPoint)
       = nat (min ((timestamp nextPoint - timestamp currentPoint) div 50) 20) - 1"
  by (simp add: gapPoints_def Let_def timeStep_def)

text \<open>
  Claim C8: between two consecutive points of the sorted, normalised buffer, synthetic
  points are inserted only when the gap exceeds \<open>2 \<times> timeStep\<close> = 100 ms; a larger gap of
  \<open>d\<close> ms gets \<open>min(\<lfloor>d / 50\<rfloor>, 20) - 1\<close> of them, so at most 20 (19 in fact). The
  \<open>k\<close>-th synthetic point of a gap has the normalised progress
  \<open>t = (k + 1) / min(\<lfloor>d / 50\<rfloor>, 20)\<close>, strictly between 0 and 1, and the time stamp at
  that fraction of the gap. For a key whose value is a finite number \<open>a\<close> at the current
  and \<open>b\<close> at the next point, its value is \<open>a + (b - a) t\<^sup>2 (3 - 2 t)\<close>, which lies in the
  closed interval between \<open>a\<close> and \<open>b\<close>; for a key that does not have a number at both
  points, it keeps the value of the current point. The output of \<open>PerformanceChart\<close> for
  a buffer of at least two points is the sorted, normalised points in their order, each
  followed by the synthetic points of the gap to the next one; the normalised points carry
  the admitted keys, with the value of the input point or \<open>null\<close>.
\<close>

theorem interpolation_between_real_points:
  "(timestamp nextPoint - timestamp currentPoint \<le> 100 \<longrightarrow>
      gapPoints keys currentPoint nextPoint = [])
   \<and> (100 < timestamp nextPoint - timestamp currentPoint \<longrightarrow>
      length (gapPoints keys currentPoint nextPoint)
        = nat (min ((timestamp nextPoint - timestamp currentPoint) div 50) 20) - 1)
   \<and> length (gapPoints keys currentPoint nextPoint) \<le> 20
   \<and> (\<forall>k<length (gapPoints keys currentPoint nextPoint).
         0 < normalizedProgress currentPoint nextPoint k
         \<and> normalizedProgress currentPoint nextPoint k < 1
         \<and> timestamp (gapPoints keys currentPoint nextPoint ! k)
             = timeClip (real_of_int (timestamp currentPoint)
                 + real_of_int (timestamp nextPoint - timestamp currentPoint)
                   * normalizedProgress currentPoint nextPoint k)
         \<and> (\<forall>key\<in>set keys. \<forall>a b.
               map_of (vals currentPoint) key = Some (Num (Fin a))
               \<and> map_of (vals nextPoint) key = Some (Num (Fin b)) \<longrightarrow>
               map_of (vals (gapPoints keys currentPoint nextPoint ! k)) key
                 = Some (Num (Fin (a + (b - a) * ease (normalizedProgress currentPoint nextPoint k))))
               \<and> min a b \<le> a + (b - a) * ease (normalizedProgress currentPoint nextPoint k)
               \<and> a + (b - a) * ease (normalizedProgress currentPoint nextPoint k) \<le> max a b)
         \<and> (\<forall>key\<in>set keys.
               (\<forall>a b. map_of (vals currentPoint) key \<noteq> Some (Num a)
                      \<or> map_of (vals nextPoint) key \<noteq> Some (Num b)) \<longrightarrow>
               map_of (vals (gapPoints keys currentPoint nextPoint ! k)) key
                 = map_of (vals currentPoint) key))
   \<and> interpolateAll keys [] = [] \<and> interpolateAll keys [p] = [p]
   \<and> interpolateAll keys (p # q # ps) = p # gapPoints keys p q @ interpolateAll keys (q # ps)
   \<and> (2 \<le> length data \<longrightarrow>
         processedData selectedModels data =
           interpolateAll (allModelKeys selectedModels (sort_key timestamp data))
             (map (normalizePoint (allModelKeys selectedModels (sort_key timestamp data)))
                (sort_key timestamp data))
         \<and> sorted (map timestamp (sort_key timestamp data))
         \<and> mset (sort_key timestamp data) = mset data
         \<and> set (allModelKeys selectedModels (sort_key timestamp data))
             = {k. admitted selectedModels k \<and> (\<exists>r\<in>set data. k \<in> fst ` set (vals r))})
   \<and> timestamp (normalizePoint keys r) = timestamp r
   \<and> (\<forall>key. map_of (vals (normalizePoint keys r)) key =
         (if key \<in> set keys
          then Some (case map_of (vals r) key of Some v \<Rightarrow> v | None \<Rightarrow> Null) else None))"
proof -
  let ?g = "gapPoints keys currentPoint nextPoint"
  let ?d = "timestamp nextPoint - timestamp currentPoint"
  let ?steps = "min (?d div 50) 20"
  have small: "?d \<le> 100 \<longrightarrow> ?g = []"
    using gapPoints_small [where currentPoint = currentPoint and nextPoint = nextPoint and keys = keys]
    by (simp add: timeStep_def)
  have count: "100 < ?d \<longrightarrow> length ?g = nat ?steps - 1"
    using gapPoints_count [where currentPoint = currentPoint and nextPoint = nextPoint and keys = keys]
    by blast
  have atmost: "length ?g \<le> 20"
    using gapPoints_length [of keys currentPoint nextPoint] by simp
  have point: "0 < normalizedProgress currentPoint nextPoint k
         \<and> normalizedProgress currentPoint nextPoint k < 1
         \<and> timestamp (?g ! k)
             = timeClip (real_of_int (timestamp currentPoint)
                 + real_of_int ?d * normalizedProgress currentPoint nextPoint k)
         \<and> (\<forall>key\<in>set keys. \<forall>a b.
               map_of (vals currentPoint) key = Some (Num (Fin a))
               \<and> map_of (vals nextPoint) key = Some (Num (Fin b)) \<longrightarrow>
               map_of (vals (?g ! k)) key
                 = Some (Num (Fin (a + (b - a) * ease (normalizedProgress currentPoint nextPoint k))))
               \<and> min a b \<le> a + (b - a) * ease (normalizedProgress currentPoint nextPoint k)
               \<and> a + (b - a) * ease (normalizedProgress currentPoint nextPoint k) \<le> max a b)
         \<and> (\<forall>key\<in>set keys.
               (\<forall>a b. map_of (vals currentPoint) key \<noteq> Some (Num a)
                      \<or> map_of (vals nextPoint) key \<noteq> Some (Num b)) \<longrightarrow>
               map_of (vals (?g ! k)) key = map_of (vals currentPoint) key)"
    if k: "k < length ?g" for k
  proof -
    let ?t = "normalizedProgress currentPoint nextPoint k"
    have s: "int (Suc k) < ?steps"
      and n: "?g ! k = interpolatedPoint keys currentPoint nextPoint ?steps (Suc k)"
      using gapPoints_nth [OF k] by blast+
    have t: "?t = real (Suc k) / real_of_int ?steps"
      by (simp add: normalizedProgress_def)
    define st where "st = real_of_int ?steps"
    have "real_of_int (int (Suc k)) < real_of_int ?steps"
      using s by (simp only: of_int_less_iff)
    then have sr: "real (Suc k) < st"
      by (simp only: of_int_of_nat_eq st_def)
    have t': "?t = real (Suc k) / st"
      by (simp only: t st_def)
    have pos: "0 < ?t" and less: "?t < 1"
      using sr unfolding t' by simp_all
    have e: "0 \<le> ease ?t" "ease ?t \<le> 1"
      using pos less ease_bounds [of ?t] by (simp_all add: ease_def)
    have stamp: "timestamp (?g ! k)
        = timeClip (real_of_int (timestamp currentPoint) + real_of_int ?d * ?t)"
      unfolding n t by (simp add: interpolatedPoint_def Let_def)
    have num: "map_of (vals (?g ! k)) key = Some (Num (Fin (a + (b - a) * ease ?t)))
        \<and> min a b \<le> a + (b - a) * ease ?t \<and> a + (b - a) * ease ?t \<le> max a b"
      if "key \<in> set keys" "map_of (vals currentPoint) key = Some (Num (Fin a))
         \<and> map_of (vals nextPoint) key = Some (Num (Fin b))" for key a b
      using interpolatedPoint_value [of key keys currentPoint a nextPoint b ?steps "Suc k"] that
        convex_between [OF e, of a b]
      unfolding n t ease_def by simp
    have carry: "map_of (vals (?g ! k)) key = map_of (vals currentPoint) key"
      if "key \<in> set keys" "\<forall>a b. map_of (vals currentPoint) key \<noteq> Some (Num a)
                      \<or> map_of (vals nextPoint) key \<noteq> Some (Num b)" for key
      unfolding n using that by (rule interpolatedPoint_carry)
    from pos less stamp num carry show ?thesis by blast
  qed
  have whole: "processedData selectedModels data =
           interpolateAll (allModelKeys selectedModels (sort_key timestamp data))
             (map (normalizePoint (allModelKeys selectedModels (sort_key timestamp data)))
                (sort_key timestamp data))
         \<and> sorted (map timestamp (sort_key timestamp data))
         \<and> mset (sort_key timestamp data) = mset data
         \<and> set (allModelKeys selectedModels (sort_key timestamp data))
             = {k. admitted selectedModels k \<and> (\<exists>r\<in>set data. k \<in> fst ` set (vals r))}"
    if "2 \<le> length data"
  proof -
    from that obtain p0 p1 rest where "data = p0 # p1 # rest"
      by (cases data; cases "tl data") auto
    then have "processedData selectedModels data =
           interpolateAll (allModelKeys selectedModels (sort_key timestamp data))
             (map (normalizePoint (allModelKeys selectedModels (sort_key timestamp data)))
                (sort_key timestamp data))"
      by (simp add: processedData_def Let_def)
    then show ?thesis by (simp add: allModelKeys_set)
  qed
  have norm: "timestamp (normalizePoint keys r) = timestamp r"
    "\<forall>key. map_of (vals (normalizePoint keys r)) key =
         (if key \<in> set keys
          then Some (case map_of (vals r) key of Some v \<Rightarrow> v | None \<Rightarrow> Null) else None)"
    by (simp_all add: normalizePoint_value) (simp add: normalizePoint_def)
  have points: "\<forall>k<length ?g.
         0 < normalizedProgress currentPoint nextPoint k
         \<and> normalizedProgress currentPoint nextPoint k < 1
         \<and> timestamp (?g ! k)
             = timeClip (real_of_int (timestamp currentPoint)
                 + real_of_int ?d * normalizedProgress currentPoint nextPoint k)
         \<and> (\<forall>key\<in>set keys. \<forall>a b.
               map_of (vals currentPoint) key = Some (Num (Fin a))
               \<and> map_of (vals nextPoint) key = Some (Num (Fin b)) \<longrightarrow>
               map_of (vals (?g ! k)) key
                 = Some (Num (Fin (a + (b - a) * ease (normalizedProgress currentPoint nextPoint k))))
               \<and> min a b \<le> a + (b - a) * ease (normalizedProgress currentPoint nextPoint k)
               \<and> a + (b - a) * ease (normalizedProgress currentPoint nextPoint k) \<le> max a b)
         \<and> (\<forall>key\<in>set keys.
               (\<forall>a b. map_of (vals currentPoint) key \<noteq> Some (Num a)
                      \<or> map_of (vals nextPoint) key \<noteq> Some (Num b)) \<longrightarrow>
               map_of (vals (?g ! k)) key = map_of (vals currentPoint) key)"
  proof (intro allI impI)
    fix k assume "k < length ?g"
    then show "0 < normalizedProgress currentPoint nextPoint k
         \<and> normalizedProgress currentPoint nextPoint k < 1
         \<and> timestamp (?g ! k)
             = timeClip (real_of_int (timestamp currentPoint)
                 + real_of_int ?d * normalizedProgress currentPoint nextPoint k)
         \<and> (\<forall>key\<in>set keys. \<forall>a b.
               map_of (vals currentPoint) key = Some (Num (Fin a))
               \<and> map_of (vals nextPoint) key = Some (Num (Fin b)) \<longrightarrow>
               map_of (vals (?g ! k)) key
                 = Some (Num (Fin (a + (b - a) * ease (normalizedProgress currentPoint nextPoint k))))
               \<and> min a b \<le> a + (b - a) * ease (normalizedProgress currentPoint nextPoint k)
               \<and> a + (b - a) * ease (normalizedProgress currentPoint nextPoint k) \<le> max a b)
         \<and> (\<forall>key\<in>set keys.
               (\<forall>a b. map_of (vals currentPoint) key \<noteq> Some (Num a)
                      \<or> map_of (vals nextPoint) key \<noteq> Some (Num b)) \<longrightarrow>
               map_of (vals (?g ! k)) key = map_of (vals currentPoint) key)"
      by (rule point)
  qed
  have order: "interpolateAll keys [] = []" "interpolateAll keys [p] = [p]"
    "interpolateAll keys (p # q # ps) = p # gapPoints keys p q @ interpolateAll keys (q # ps)"
    by simp_all
  have whole': "2 \<le> length data \<longrightarrow>
         processedData selectedModels data =
           interpolateAll (allModelKeys selectedModels (sort_key timestamp data))
             (map (normalizePoint (allModelKeys selectedModels (sort_key timestamp data)))
                (sort_key timestamp data))
         \<and> sorted (map timestamp (sort_key timestamp data))
         \<and> mset (sort_key timestamp data) = mset data
         \<and> set (allModelKeys selectedModels (sort_key timestamp data))
             = {k. admitted selectedModels k \<and> (\<exists>r\<in>set data. k \<in> fst ` set (vals r))}"
    using whole by (rule impI)
  show ?thesis
    by (intro conjI) (fact small count atmost points order whole' norm)+
qed

text \<open>Between values 0 and 10 that are 200 ms apart, three points are inserted, at 50,
  100 and 150 ms with the values 25/16, 5 and 135/16, the cubic ease at a quarter, a half
  and three quarters; no point is inserted into a gap of 100 ms.\<close>

theorem interpolation_between_real_points_witness:
  "100 < timestamp gapEnd - timestamp gapStart
   \<and> timestamp gapEnd - timestamp \<lparr>timestamp = 100, vals = []\<rparr> \<le> 100
   \<and> gapPoints [''A''] \<lparr>timestamp = 100, vals = []\<rparr> gapEnd = []
   \<and> length (gapPoints [''A''] gapStart gapEnd) = 3
   \<and> map_of (vals gapStart) ''A'' = Some (Num (Fin 0))
   \<and> map_of (vals gapEnd) ''A'' = Some (Num (Fin 10))
   \<and> normalizedProgress gapStart gapEnd 0 = 1 / 4
   \<and> map_of (vals (gapPoints [''A''] gapStart gapEnd ! 0)) ''A'' = Some (Num (Fin (25 / 16)))
   \<and> map timestamp (gapPoints [''A''] gapStart gapEnd) = [50, 100, 150]
   \<and> map vals (gapPoints [''A''] gapStart gapEnd) =
        [[(''A'', Num (Fin (25 / 16)))], [(''A'', Num (Fin 5))], [(''A'', Num (Fin (135 / 16)))]]
   \<and> 2 \<le> length [gapStart, gapEnd]
   \<and> map timestamp (processedData [] [gapStart, gapEnd]) = [0, 50, 100, 150, 200]"
proof -
  note inst = interpolation_between_real_points
    [where nextPoint = gapEnd and currentPoint = gapStart and keys = "[''A'']"
       and data = "[gapStart, gapEnd]" and selectedModels = "[]"]
  have g: "gapPoints [''A''] gapStart gapEnd =
     [\<lparr>timestamp = 50, vals = [(''A'', Num (Fin (25 / 16)))]\<rparr>,
      \<lparr>timestamp = 100, vals = [(''A'', Num (Fin 5))]\<rparr>,
      \<lparr>timestamp = 150, vals = [(''A'', Num (Fin (135 / 16)))]\<rparr>]"
    by (simp add: gapPoints_def gapStart_def gapEnd_def timeStep_def interpolatedPoint_def
          interpolatedEntry_def cubicInterpolate_def jssub_def timeClip_def Let_def upt_rec)
  have n: "map (normalizePoint [''A'']) (sort_key timestamp [gapStart, gapEnd]) = [gapStart, gapEnd]"
    by (simp add: gapStart_def gapEnd_def normalizePoint_def)
  have k: "allModelKeys [] (sort_key timestamp [gapStart, gapEnd]) = [''A'']"
    by (simp add: gapStart_def gapEnd_def allModelKeys_def admitted_def addKey_def)
  have h: "2 \<le> length [gapStart, gapEnd]" by simp
  have d: "100 < timestamp gapEnd - timestamp gapStart"
    by (simp add: gapEnd_def gapStart_def)
  have a: "map_of (vals gapStart) ''A'' = Some (Num (Fin 0))"
      "map_of (vals gapEnd) ''A'' = Some (Num (Fin 10))"
    by (simp_all add: gapEnd_def gapStart_def)
  have t: "normalizedProgress gapStart gapEnd 0 = 1 / 4"
    by (simp add: normalizedProgress_def gapEnd_def gapStart_def)
  have len: "length (gapPoints [''A''] gapStart gapEnd) = 3"
    using inst [THEN conjunct2, THEN conjunct1] d by (simp add: gapEnd_def gapStart_def)
  have first: "map_of (vals (gapPoints [''A''] gapStart gapEnd ! 0)) ''A'' = Some (Num (Fin (25 / 16)))"
  proof -
    have p0: "0 < length (gapPoints [''A''] gapStart gapEnd)" using len by simp
    note pt = inst [THEN conjunct2, THEN conjunct2, THEN conjunct2, THEN conjunct1,
      rule_format, OF p0]
    note num = pt [THEN conjunct2, THEN conjunct2, THEN conjunct2, THEN conjunct1,
      rule_format, of "''A''" 0 10]
    have "map_of (vals (gapPoints [''A''] gapStart gapEnd ! 0)) ''A''
        = Some (Num (Fin (0 + (10 - 0) * ease (normalizedProgress gapStart gapEnd 0))))"
      using num a by simp
    then show ?thesis by (simp add: t ease_def)
  qed
  have whole: "map timestamp (processedData [] [gapStart, gapEnd]) = [0, 50, 100, 150, 200]"
  proof -
    have "processedData [] [gapStart, gapEnd] =
        interpolateAll (allModelKeys [] (sort_key timestamp [gapStart, gapEnd]))
          (map (normalizePoint (allModelKeys [] (sort_key timestamp [gapStart, gapEnd])))
             (sort_key timestamp [gapStart, gapEnd]))"
      using inst [THEN conjunct2, THEN conjunct2, THEN conjunct2, THEN conjunct2,
        THEN conjunct2, THEN conjunct2, THEN conjunct2, THEN conjunct1] h
      by blast
    then show ?thesis unfolding k n by (simp add: g) (simp add: gapStart_def gapEnd_def)
  qed
  have none: "gapPoints [''A''] \<lparr>timestamp = 100, vals = []\<rparr> gapEnd = []"
  proof -
    have "timestamp gapEnd - timestamp \<lparr>timestamp = 100, vals = []\<rparr> \<le> 100 \<longrightarrow>
        gapPoints [''A''] \<lparr>timestamp = 100, vals = []\<rparr> gapEnd = []"
      by (rule interpolation_between_real_points
        [where nextPoint = gapEnd and currentPoint = "\<lparr>timestamp = 100, vals = []\<rparr>"
           and keys = "[''A'']", THEN conjunct1])
    then show ?thesis by (simp add: gapEnd_def)
  qed
  have le: "timestamp gapEnd - timestamp \<lparr>timestamp = 100, vals = []\<rparr> \<le> 100"
    by (simp add: gapEnd_def)
  from d le none len a t first whole h show ?thesis by (simp add: g)
qed

text \<open>
  Claim C9, as amended: for every buffer with at least two points and every selection,
  every output point of \<open>PerformanceChart\<close> and of \<open>AdvancedPerformanceChart\<close> carries
  exactly the admitted keys: the model keys of the input points that the selection
  contains, or all of them when the selection is empty. In the output of
  \<open>PerformanceChart\<close> every input point is present with its time stamp, with its own value
  for the admitted keys it has and \<open>null\<close> for the others. (\<open>AdvancedPerformanceChart\<close>
  then replaces every value by the mean of the numbers in the smoothing window.)
\<close>

theorem output_points_carry_admitted_keys:
  assumes "2 \<le> length data"
  shows "set (allModelKeys selectedModels (sort_key timestamp data))
            = {k. admitted selectedModels k \<and> (\<exists>p\<in>set data. k \<in> fst ` set (vals p))}
     \<and> (\<forall>q\<in>set (processedData selectedModels data).
            map fst (vals q) = allModelKeys selectedModels (sort_key timestamp data))
     \<and> (\<forall>q\<in>set (processedDataAdvanced smoothing selectedModels data).
            map fst (vals q) = allModelKeys selectedModels (sort_key timestamp data))
     \<and> (\<forall>p\<in>set data. \<exists>q\<in>set (processedData selectedModels data).
            timestamp q = timestamp p
            \<and> (\<forall>k\<in>set (allModelKeys selectedModels (sort_key timestamp data)).
                  map_of (vals q) k = Some (case map_of (vals p) k of Some v \<Rightarrow> v | None \<Rightarrow> Null)))"
proof -
  let ?sorted = "sort_key timestamp data"
  let ?keys = "allModelKeys selectedModels ?sorted"
  let ?nd = "map (normalizePoint ?keys) ?sorted"
  from assms obtain p0 p1 rest where d: "data = p0 # p1 # rest"
    by (cases data; cases "tl data") auto
  have pd: "processedData selectedModels data = interpolateAll ?keys ?nd"
    by (simp add: d processedData_def Let_def)
  have pa: "processedDataAdvanced smoothing selectedModels data =
      map (smoothedPoint ?keys ?nd (smoothingWindow smoothing (length ?nd))) [0..<length ?nd]"
    by (simp add: d processedDataAdvanced_def Let_def)
  have 1: "set ?keys = {k. admitted selectedModels k \<and> (\<exists>p\<in>set data. k \<in> fst ` set (vals p))}"
    by (simp add: allModelKeys_set)
  have 2: "\<forall>q\<in>set (processedData selectedModels data). map fst (vals q) = ?keys"
    unfolding pd using interpolateAll_keys by blast
  have 3: "\<forall>q\<in>set (processedDataAdvanced smoothing selectedModels data). map fst (vals q) = ?keys"
    unfolding pa by (auto simp add: smoothedPoint_keys)
  have 4: "\<exists>q\<in>set (processedData selectedModels data). timestamp q = timestamp p
            \<and> (\<forall>k\<in>set ?keys.
                  map_of (vals q) k = Some (case map_of (vals p) k of Some v \<Rightarrow> v | None \<Rightarrow> Null))"
    if "p \<in> set data" for p
  proof -
    from that have "normalizePoint ?keys p \<in> set ?nd" by simp
    then have "normalizePoint ?keys p \<in> set (processedData selectedModels data)"
      unfolding pd interpolateAll_set by blast
    moreover have "timestamp (normalizePoint ?keys p) = timestamp p"
      by (simp add: normalizePoint_def)
    ultimately show ?thesis
      by (intro bexI [of _ "normalizePoint ?keys p"]) (simp_all add: normalizePoint_value)
  qed
  from 1 2 3 4 show ?thesis by blast
qed

lemmas chart_defs = processedData_def processedDataAdvanced_def allModelKeys_def admitted_def
  addKey_def normalizePoint_def gapPoints_def timeStep_def smoothedPoint_def windowValues_def
  smoothingWindow_def Let_def

text \<open>The example of the claim, without a selection and with 50 ms between the points:
  three points, each with both keys, \<open>null\<close> for A at the second and for B at the first
  and the third.\<close>

theorem output_points_carry_admitted_keys_witness:
  "2 \<le> length abData
   \<and> map (\<lambda>q. map fst (vals q)) (processedData [] abData) = [[''A'', ''B''], [''A'', ''B''], [''A'', ''B'']]
   \<and> processedData [] abData =
       [\<lparr>timestamp = 0, vals = [(''A'', Num (Fin 1)), (''B'', Null)]\<rparr>,
        \<lparr>timestamp = 50, vals = [(''A'', Null), (''B'', Num (Fin 2))]\<rparr>,
        \<lparr>timestamp = 100, vals = [(''A'', Num (Fin 3)), (''B'', Null)]\<rparr>]"
proof -
  have h: "2 \<le> length abData" by (simp add: abData_def)
  have k: "allModelKeys [] (sort_key timestamp abData) = [''A'', ''B'']"
    by (simp add: abData_def allModelKeys_def admitted_def addKey_def)
  have "\<forall>q\<in>set (processedData [] abData). map fst (vals q) = [''A'', ''B'']"
    using output_points_carry_admitted_keys [OF h, of "[]" 55] unfolding k by blast
  moreover have v: "processedData [] abData =
       [\<lparr>timestamp = 0, vals = [(''A'', Num (Fin 1)), (''B'', Null)]\<rparr>,
        \<lparr>timestamp = 50, vals = [(''A'', Null), (''B'', Num (Fin 2))]\<rparr>,
        \<lparr>timestamp = 100, vals = [(''A'', Num (Fin 3)), (''B'', Null)]\<rparr>]"
    by (simp add: abData_def chart_defs)
  ultimately show ?thesis using h by (simp add: v)
qed

text \<open>The claim as stated fails on that buffer: with the selection \<open>[A]\<close> no output
  point carries the key B of the second input point; and in \<open>AdvancedPerformanceChart\<close>
  the first output point has the value 2 for B, which has no value at that time stamp.\<close>

theorem selection_and_smoothing_counterexample:
  "''B'' \<in> set (map fst (vals (abData ! 1)))
   \<and> map (\<lambda>q. map fst (vals q)) (processedData [''A''] abData) = [[''A''], [''A''], [''A'']]
   \<and> map_of (vals (abData ! 0)) ''B'' = None
   \<and> map_of (vals (processedDataAdvanced 55 [] abData ! 0)) ''B'' = Some (Num (Fin 2))
   \<and> map_of (vals (processedDataAdvanced 55 [] abData ! 0)) ''B'' \<noteq> Some Null"
  by (simp add: abData_def chart_defs toNumber_def upt_rec List.map_filter_def)

end
